theory Spec2Isabelle
  imports Main "HOL-Library.Word" "HOL-Library.AList"
begin

section \<open>Go runtime values shared by the model\<close>

text \<open>
  A run-time panic of the Go program is a value of type \<open>panic\<close>; a function of the
  source that can panic returns \<open>panic + 'a\<close> with \<open>Inl\<close> the panic. An \<open>error\<close>
  is an ordinary Go error value returned to the caller.
\<close>

datatype panic =
    IndexOutOfRange
  | SliceBoundsOutOfRange
  | NilDereference
  | CloseOfClosedChannel
  | IntnNonPositive

type_synonym int64 = "64 word"
type_synonym bytes = "8 word list"
type_synonym agentID = string

section \<open>Backend storage (backend manager file)\<close>

text \<open>
  \<open>*backend\<close>: the pointer is the field \<open>addr\<close> (handles are compared by pointer),
  \<open>conn\<close> is the identity of the wrapped agent stream (streams are compared as
  interface values). A \<open>backend\<close> is never mutated after \<open>newBackend\<close>.
\<close>

record backend =
  addr :: nat
  conn :: nat

text \<open>
  \<open>DefaultBackendStorage\<close>. The Go map \<open>backends\<close> is an association list read with
  \<open>map_of\<close> and written with \<open>AList.update\<close> and \<open>AList.delete\<close>; \<open>len\<close> of the
  map is the length of the list. \<open>nextAddr\<close> is the allocator behind \<open>newBackend\<close>:
  every call yields a pointer that was never handed out before. The field \<open>random\<close>
  is replaced by an explicit argument of the functions that draw from it.
\<close>

record DefaultBackendStorage =
  backends :: "(agentID \<times> backend list) list"
  agentIDs :: "agentID list"
  nextAddr :: nat

definition NewDefaultBackendStorage :: DefaultBackendStorage where
  "NewDefaultBackendStorage = \<lparr>backends = [], agentIDs = [], nextAddr = 0\<rparr>"

text \<open>\<open>xs[0]\<close> on a Go slice: a nil or empty slice panics.\<close>

definition index0 :: "'a list \<Rightarrow> panic + 'a" where
  "index0 xs = (case xs of [] \<Rightarrow> Inl IndexOutOfRange | x # _ \<Rightarrow> Inr x)"

text \<open>\<open>m[k]\<close> on a Go map of slices: a missing key reads as the nil slice.\<close>

definition slice_at :: "('k \<times> 'a list) list \<Rightarrow> 'k \<Rightarrow> 'a list" where
  "slice_at m k = (case map_of m k of None \<Rightarrow> [] | Some xs \<Rightarrow> xs)"

text \<open>\<open>GetBackend\<close>: \<open>None\<close> is the nil interface value.\<close>

definition GetBackend :: "DefaultBackendStorage \<Rightarrow> agentID \<Rightarrow> panic + backend option" where
  "GetBackend s a =
     (if length (backends s) = 0 then Inr None
      else (case index0 (slice_at (backends s) a) of
              Inl p \<Rightarrow> Inl p
            | Inr b \<Rightarrow> Inr (Some b)))"

definition newBackend :: "DefaultBackendStorage \<Rightarrow> nat \<Rightarrow> backend \<times> DefaultBackendStorage" where
  "newBackend s c = (\<lparr>addr = nextAddr s, conn = c\<rparr>, s\<lparr>nextAddr := Suc (nextAddr s)\<rparr>)"

definition AddBackend ::
  "DefaultBackendStorage \<Rightarrow> agentID \<Rightarrow> nat \<Rightarrow> backend \<times> DefaultBackendStorage" where
  "AddBackend s a c =
     (case newBackend s c of (addedBackend, s1) \<Rightarrow>
        (case map_of (backends s1) a of
           Some hs \<Rightarrow>
             (case find (\<lambda>v. conn v = c) hs of
                Some v \<Rightarrow> (v, s1)
              | None \<Rightarrow>
                  (addedBackend, s1\<lparr>backends := AList.update a (hs @ [addedBackend]) (backends s1)\<rparr>))
         | None \<Rightarrow>
             (addedBackend,
              s1\<lparr>backends := AList.update a [addedBackend] (backends s1),
                 agentIDs := agentIDs s1 @ [a]\<rparr>)))"

text \<open>
  The loop of \<open>RemoveBackend\<close>. \<open>range backends\<close> fixes the slice header before the
  first iteration, so the loop visits the indices \<open>0..<n\<close> of the backing array
  \<open>arr\<close> whatever happens to \<open>s.backends[agentID]\<close>, whose current length is \<open>m\<close>.
  \<open>append(cur[:i], cur[i+1:]...)\<close> has room in the backing array, so it shifts
  \<open>arr[i+1..m-1]\<close> left by one in place and leaves the cells from \<open>m-1\<close> on as they
  were; \<open>cur[i+1:]\<close> panics when \<open>i+1 > m\<close>.
\<close>

fun removeRange ::
  "nat \<Rightarrow> nat list \<Rightarrow> backend list \<times> nat \<times> bool \<Rightarrow> panic + (backend list \<times> nat \<times> bool)" where
  "removeRange c [] st = Inr st"
| "removeRange c (i # is) (arr, m, found) =
     (if conn (arr ! i) = c then
        (if m < i + 1 then Inl SliceBoundsOutOfRange
         else removeRange c is
                (take i arr @ drop (i + 1) (take m arr) @ drop (m - 1) arr, m - 1, True))
      else removeRange c is (arr, m, found))"

text \<open>
  The loop over \<open>s.agentIDs\<close>: the first cell equal to \<open>agentID\<close> is overwritten with
  the last cell, the slice is cut by one, and the loop breaks.
\<close>

fun firstIndex :: "'a \<Rightarrow> 'a list \<Rightarrow> nat option" where
  "firstIndex a [] = None"
| "firstIndex a (x # xs) =
     (if x = a then Some 0 else map_option Suc (firstIndex a xs))"

definition removeAgentID :: "agentID \<Rightarrow> agentID list \<Rightarrow> agentID list" where
  "removeAgentID a ids =
     (case firstIndex a ids of
        None \<Rightarrow> ids
      | Some i \<Rightarrow> butlast (ids[i := last ids]))"

definition RemoveBackend ::
  "DefaultBackendStorage \<Rightarrow> agentID \<Rightarrow> nat \<Rightarrow> panic + DefaultBackendStorage" where
  "RemoveBackend s a c =
     (case map_of (backends s) a of
        None \<Rightarrow> Inr s
      | Some hs \<Rightarrow>
          (case removeRange c [0..<length hs] (hs, length hs, False) of
             Inl p \<Rightarrow> Inl p
           | Inr (arr, m, found) \<Rightarrow>
               (if length (take m arr) = 0
                then Inr (s\<lparr>backends := AList.delete a (backends s),
                            agentIDs := removeAgentID a (agentIDs s)\<rparr>)
                else Inr (s\<lparr>backends := AList.update a (take m arr) (backends s)\<rparr>))))"

definition NumBackends :: "DefaultBackendStorage \<Rightarrow> nat" where
  "NumBackends s = length (backends s)"

text \<open>\<open>rand.Intn(n)\<close> on the drawn value \<open>rnd\<close>: panics unless \<open>n > 0\<close>.\<close>

definition Intn :: "nat \<Rightarrow> nat \<Rightarrow> panic + nat" where
  "Intn rnd n = (if n = 0 then Inl IntnNonPositive else Inr (rnd mod n))"

definition GetRandomBackend :: "DefaultBackendStorage \<Rightarrow> nat \<Rightarrow> panic + backend option" where
  "GetRandomBackend s rnd =
     (if length (backends s) = 0 then Inr None
      else (case Intn rnd (length (agentIDs s)) of
              Inl p \<Rightarrow> Inl p
            | Inr i \<Rightarrow>
                (case index0 (slice_at (backends s) (agentIDs s ! i)) of
                   Inl p \<Rightarrow> Inl p
                 | Inr b \<Rightarrow> Inr (Some b))))"

section \<open>Wire packets\<close>

text \<open>
  Modelled from the spec: the packet type of the wire protocol (the generated
  proto package is not among the sources). The spec lists the variants with their
  fields: DIAL_REQ{protocol, address, random}, DIAL_RSP{random, connectID, error},
  DATA{connectID, data}, CLOSE_REQ{connectID}, CLOSE_RSP{connectID}. The
  constructors take the fields in the order \<open>DialRequest Protocol Address Random\<close>,
  \<open>DialResponse Error ConnectID Random\<close>, \<open>Data ConnectID Data\<close>; the tag
  \<open>pkt.Type\<close> is the one of the payload.
\<close>

datatype PacketType = DIAL_REQ | DIAL_RSP | CLOSE_REQ | CLOSE_RSP | DATA

datatype Packet =
    DialRequest string string int64
  | DialResponse string int64 int64
  | CloseRequest int64
  | CloseResponse int64
  | Data int64 bytes

fun Type :: "Packet \<Rightarrow> PacketType" where
  "Type (DialRequest p a r) = DIAL_REQ"
| "Type (DialResponse e c r) = DIAL_RSP"
| "Type (CloseRequest c) = CLOSE_REQ"
| "Type (CloseResponse c) = CLOSE_RSP"
| "Type (Data c d) = DATA"

datatype error =
    ErrNotFound
  | ErrNoAgentID
  | ErrTypeAssertion
  | ErrUnrecognizedType PacketType
  | ErrUnrecognizedMode string
  | ErrNoAgentInFrontends agentID
  | ErrNoConnInFrontends int64 agentID
  | TransportError string

section \<open>Backend manager\<close>

text \<open>
  The two implementations of \<open>BackendManager\<close> in the source. The context carries
  at most one value under \<open>DestIPContextKey\<close>; it is a string or something else.
\<close>

datatype BackendManagerKind = DefaultBackendManager | DestIPBackendManager

datatype ctxValue = StringValue string | OtherValue

text \<open>
  \<open>Backend(ctx)\<close> of either manager over the storage: a panic, or an error, or a
  handle.
\<close>

definition found_or_ErrNotFound :: "panic + backend option \<Rightarrow> panic + (error + backend)" where
  "found_or_ErrNotFound x =
     (case x of
        Inl p \<Rightarrow> Inl p
      | Inr None \<Rightarrow> Inr (Inl ErrNotFound)
      | Inr (Some be) \<Rightarrow> Inr (Inr be))"

definition Backend ::
  "BackendManagerKind \<Rightarrow> DefaultBackendStorage \<Rightarrow> ctxValue option \<Rightarrow> nat
     \<Rightarrow> panic + (error + backend)" where
  "Backend k st ctx rnd =
     (case k of
        DefaultBackendManager \<Rightarrow> found_or_ErrNotFound (GetRandomBackend st rnd)
      | DestIPBackendManager \<Rightarrow>
          (case ctx of
             None \<Rightarrow> Inr (Inl ErrNoAgentID)
           | Some OtherValue \<Rightarrow> Inr (Inl ErrTypeAssertion)
           | Some (StringValue a) \<Rightarrow> found_or_ErrNotFound (GetBackend st a)))"

section \<open>Frontend records and their send adapter\<close>

text \<open>
  \<open>ProxyClientConnection\<close>. \<open>Grpc\<close> and \<open>HTTP\<close> hold the identity of the frontend's
  stream or socket, \<open>None\<close> for nil. \<open>connected\<close> is the channel of that name:
  \<open>False\<close> while open, \<open>True\<close> once closed. \<open>backend\<close> is the \<open>Backend\<close>
  interface value, \<open>None\<close> for nil. The timestamp \<open>start\<close> only feeds a metric and
  is left out.
\<close>

record ProxyClientConnection =
  Mode :: string
  Grpc :: "nat option"
  HTTP :: "nat option"
  connected :: bool
  connectID :: int64
  agentID :: agentID
  backend :: "backend option"

text \<open>
  What the server does to the outside world, in the order it does it.
  \<open>FrontendSend r pkt\<close> marks a call of \<open>send\<close> on the record at address \<open>r\<close>;
  the transport operations that call performs follow it.
\<close>

datatype action =
    BackendSend backend Packet
  | FrontendSend nat Packet
  | GrpcSend nat Packet
  | HTTPWrite nat bytes
  | HTTPClose nat

text \<open>
  \<open>ProxyClientConnection.send\<close>. \<open>io\<close> is what the one transport operation
  returns, if the call gets to perform one. A method call on a nil stream or socket
  panics.
\<close>

definition send ::
  "ProxyClientConnection \<Rightarrow> Packet \<Rightarrow> error option \<Rightarrow> panic + (action list \<times> error option)" where
  "send c pkt io =
     (if Mode c = ''grpc'' then
        (case Grpc c of
           None \<Rightarrow> Inl NilDereference
         | Some stream \<Rightarrow> Inr ([GrpcSend stream pkt], io))
      else if Mode c = ''http-connect'' then
        (case pkt of
           CloseResponse cid \<Rightarrow>
             (case HTTP c of
                None \<Rightarrow> Inl NilDereference
              | Some sock \<Rightarrow> Inr ([HTTPClose sock], io))
         | Data cid d \<Rightarrow>
             (case HTTP c of
                None \<Rightarrow> Inl NilDereference
              | Some sock \<Rightarrow> Inr ([HTTPWrite sock d], io))
         | DialResponse err cid rand \<Rightarrow>
             (if err \<noteq> [] then
                (case HTTP c of
                   None \<Rightarrow> Inl NilDereference
                 | Some sock \<Rightarrow> Inr ([HTTPClose sock], io))
              else Inr ([], None))
         | _ \<Rightarrow> Inr ([], Some (ErrUnrecognizedType (Type pkt))))
      else Inr ([], Some (ErrUnrecognizedMode (Mode c))))"

section \<open>The proxy server\<close>

text \<open>
  \<open>ProxyServer\<close>. The outer map \<open>frontends\<close> and the map of \<open>PendingDial\<close> are only
  read and written by key, so they are partial functions; an inner map of
  \<open>frontends\<close> is also measured and ranged over, so it is an association list.
  Records live in \<open>heap\<close> and the tables hold their addresses: both tables and the
  tunnel handler share one record and see its fields change. Every address put in a
  table comes from a composite literal \<open>&ProxyClientConnection{...}\<close>, allocated at
  \<open>nextRef\<close>, so it is never nil and the heap is total. \<open>proxyStrategy\<close> is the
  field the tunnel handler reads. \<open>trace\<close> collects the actions.
\<close>

record ProxyServer =
  BackendManager :: BackendManagerKind
  proxyStrategy :: string
  storage :: DefaultBackendStorage
  frontends :: "agentID \<rightharpoonup> (int64 \<times> nat) list"
  PendingDial :: "int64 \<rightharpoonup> nat"
  heap :: "nat \<Rightarrow> ProxyClientConnection"
  nextRef :: nat
  trace :: "action list"

text \<open>The zero value of \<open>ProxyClientConnection\<close>.\<close>

definition zeroConnection :: ProxyClientConnection where
  "zeroConnection =
     \<lparr>Mode = [], Grpc = None, HTTP = None, connected = False, connectID = 0,
      agentID = [], backend = None\<rparr>"

text \<open>
  \<open>NewProxyServer\<close>. The source selects the manager by the strategy string, one of
  the two constructors it names being absent from the sources, so the manager is
  taken as an argument.
\<close>

definition NewProxyServer :: "BackendManagerKind \<Rightarrow> string \<Rightarrow> ProxyServer" where
  "NewProxyServer bm strategy =
     \<lparr>BackendManager = bm, proxyStrategy = strategy, storage = NewDefaultBackendStorage,
      frontends = Map.empty, PendingDial = Map.empty, heap = (\<lambda>_. zeroConnection),
      nextRef = 0, trace = []\<rparr>"

text \<open>\<open>&ProxyClientConnection{...}\<close>: a fresh address holding the record.\<close>

definition newConnection :: "ProxyServer \<Rightarrow> ProxyClientConnection \<Rightarrow> nat \<times> ProxyServer" where
  "newConnection s c =
     (nextRef s, s\<lparr>heap := (heap s)(nextRef s := c), nextRef := Suc (nextRef s)\<rparr>)"

subsection \<open>Pending-dial table\<close>

definition PendingDial_Add :: "ProxyServer \<Rightarrow> int64 \<Rightarrow> nat \<Rightarrow> ProxyServer" where
  "PendingDial_Add s random clientConn = s\<lparr>PendingDial := (PendingDial s)(random \<mapsto> clientConn)\<rparr>"

definition PendingDial_Get :: "ProxyServer \<Rightarrow> int64 \<Rightarrow> nat option" where
  "PendingDial_Get s random = PendingDial s random"

definition PendingDial_Remove :: "ProxyServer \<Rightarrow> int64 \<Rightarrow> ProxyServer" where
  "PendingDial_Remove s random = s\<lparr>PendingDial := (PendingDial s)(random := None)\<rparr>"

subsection \<open>Frontend registry\<close>

definition conns_of :: "ProxyServer \<Rightarrow> agentID \<Rightarrow> (int64 \<times> nat) list" where
  "conns_of s a = (case frontends s a of None \<Rightarrow> [] | Some m \<Rightarrow> m)"

definition addFrontend :: "ProxyServer \<Rightarrow> agentID \<Rightarrow> int64 \<Rightarrow> nat \<Rightarrow> ProxyServer" where
  "addFrontend s a connID p =
     s\<lparr>frontends := (frontends s)(a \<mapsto> AList.update connID p (conns_of s a))\<rparr>"

definition removeFrontend :: "ProxyServer \<Rightarrow> agentID \<Rightarrow> int64 \<Rightarrow> ProxyServer" where
  "removeFrontend s a connID =
     (case frontends s a of
        None \<Rightarrow> s
      | Some conns \<Rightarrow>
          (case map_of conns connID of
             None \<Rightarrow> s
           | Some _ \<Rightarrow>
               (if length (AList.delete connID conns) = 0
                then s\<lparr>frontends := (frontends s)(a := None)\<rparr>
                else s\<lparr>frontends := (frontends s)(a \<mapsto> AList.delete connID conns)\<rparr>)))"

definition getFrontend :: "ProxyServer \<Rightarrow> agentID \<Rightarrow> int64 \<Rightarrow> error + nat" where
  "getFrontend s a connID =
     (case frontends s a of
        None \<Rightarrow> Inl (ErrNoAgentInFrontends a)
      | Some conns \<Rightarrow>
          (case map_of conns connID of
             None \<Rightarrow> Inl (ErrNoConnInFrontends connID a)
           | Some c \<Rightarrow> Inr c))"

text \<open>
  \<open>frontend.backend == backend\<close> compares two interface values holding
  \<open>*backend\<close> pointers: equal when both hold the same pointer.
\<close>

definition same_backend :: "backend option \<Rightarrow> backend \<Rightarrow> bool" where
  "same_backend x be = (case x of None \<Rightarrow> False | Some b \<Rightarrow> addr b = addr be)"

text \<open>
  \<open>getFrontendsForBackendConn\<close>. Go ranges over a map in an order of its own
  choosing; \<open>ks\<close> is the order in which the loop meets the keys of the inner map.
\<close>

definition getFrontendsForBackendConn ::
  "ProxyServer \<Rightarrow> agentID \<Rightarrow> backend \<Rightarrow> int64 list \<Rightarrow> error + nat list" where
  "getFrontendsForBackendConn s a be ks =
     (case frontends s a of
        None \<Rightarrow> Inl (ErrNoAgentInFrontends a)
      | Some conns \<Rightarrow>
          Inr (filter (\<lambda>frontend. same_backend (backend (heap s frontend)) be)
                 (List.map_filter (map_of conns) ks)))"

text \<open>\<open>ks\<close> is an order in which a range loop can meet the keys of \<open>conns\<close>.\<close>

definition range_order :: "(int64 \<times> nat) list \<Rightarrow> int64 list \<Rightarrow> bool" where
  "range_order conns ks = (distinct ks \<and> set ks = fst ` set conns)"

subsection \<open>Sending\<close>

text \<open>\<open>frontend.send(pkt)\<close> on the record at \<open>r\<close>, logged.\<close>

definition frontend_send ::
  "ProxyServer \<Rightarrow> nat \<Rightarrow> Packet \<Rightarrow> error option \<Rightarrow> panic + (ProxyServer \<times> error option)" where
  "frontend_send s r pkt io =
     (case send (heap s r) pkt io of
        Inl p \<Rightarrow> Inl p
      | Inr (acts, err) \<Rightarrow> Inr (s\<lparr>trace := trace s @ FrontendSend r pkt # acts\<rparr>, err))"

text \<open>\<open>backend.Send(pkt)\<close>, logged; what it returns is up to the transport.\<close>

definition backend_Send :: "ProxyServer \<Rightarrow> backend \<Rightarrow> Packet \<Rightarrow> ProxyServer" where
  "backend_Send s be pkt = s\<lparr>trace := trace s @ [BackendSend be pkt]\<rparr>"

section \<open>Backend stream handler\<close>

text \<open>
  One turn of the loop of \<open>serveRecvBackend\<close> for the agent \<open>a\<close>. \<open>io\<close> is what
  the frontend's transport returns if the turn performs a transport operation.
  \<open>close(frontend.connected)\<close> panics on a channel that is already closed.
\<close>

definition close_connected :: "ProxyServer \<Rightarrow> nat \<Rightarrow> panic + ProxyServer" where
  "close_connected s r =
     (if connected (heap s r) then Inl CloseOfClosedChannel
      else Inr (s\<lparr>heap := (heap s)(r := (heap s r)\<lparr>connected := True\<rparr>)\<rparr>))"

definition serveRecvBackend_pkt ::
  "ProxyServer \<Rightarrow> agentID \<Rightarrow> Packet \<Rightarrow> error option \<Rightarrow> panic + ProxyServer" where
  "serveRecvBackend_pkt s a pkt io =
     (case pkt of
        DialResponse err cid rand \<Rightarrow>
          (case PendingDial_Get s rand of
             None \<Rightarrow> Inr s
           | Some frontend \<Rightarrow>
               (case frontend_send s frontend pkt io of
                  Inl p \<Rightarrow> Inl p
                | Inr (s1, e) \<Rightarrow>
                    (let s2 = PendingDial_Remove s1 rand;
                         dialErr = (err \<noteq> [] \<or> e \<noteq> None)
                     in if dialErr then Inr s2
                        else
                          (let s3 = s2\<lparr>heap := (heap s2)
                                       (frontend := (heap s2 frontend)\<lparr>connectID := cid, agentID := a\<rparr>)\<rparr>;
                               s4 = addFrontend s3 a cid frontend
                           in close_connected s4 frontend))))
      | Data cid d \<Rightarrow>
          (case getFrontend s a cid of
             Inl e \<Rightarrow> Inr s
           | Inr frontend \<Rightarrow>
               (case frontend_send s frontend pkt io of
                  Inl p \<Rightarrow> Inl p
                | Inr (s1, e) \<Rightarrow> Inr s1))
      | CloseResponse cid \<Rightarrow>
          (case getFrontend s a cid of
             Inl e \<Rightarrow> Inr s
           | Inr frontend \<Rightarrow>
               (case frontend_send s frontend pkt io of
                  Inl p \<Rightarrow> Inl p
                | Inr (s1, e) \<Rightarrow> Inr (removeFrontend s1 a cid)))
      | _ \<Rightarrow> Inr s)"

text \<open>
  The deferred function of \<open>serveRecvBackend\<close>: the loop over the records that
  \<open>getFrontendsForBackendConn\<close> returned. \<open>io r\<close> is what the transport of the
  record at \<open>r\<close> returns; the loop only logs it.
\<close>

fun closeFrontends ::
  "ProxyServer \<Rightarrow> agentID \<Rightarrow> nat list \<Rightarrow> (nat \<Rightarrow> error option) \<Rightarrow> panic + ProxyServer" where
  "closeFrontends s a [] io = Inr s"
| "closeFrontends s a (frontend # rest) io =
     (let s1 = removeFrontend s a (connectID (heap s frontend))
      in case frontend_send s1 frontend (CloseResponse (connectID (heap s1 frontend))) (io frontend) of
           Inl p \<Rightarrow> Inl p
         | Inr (s2, e) \<Rightarrow> closeFrontends s2 a rest io)"

definition serveRecvBackend_deferred ::
  "ProxyServer \<Rightarrow> agentID \<Rightarrow> backend \<Rightarrow> int64 list \<Rightarrow> (nat \<Rightarrow> error option)
     \<Rightarrow> panic + ProxyServer" where
  "serveRecvBackend_deferred s a be ks io =
     (case getFrontendsForBackendConn s a be ks of
        Inl e \<Rightarrow> Inr s
      | Inr fs \<Rightarrow> closeFrontends s a fs io)"

section \<open>Frontend stream handler (gRPC)\<close>

text \<open>
  The local variables \<open>firstConnID\<close> and \<open>backend\<close> of \<open>serveRecvFrontend\<close> are a
  pair. One turn of its loop on the stream \<open>stream\<close>; \<open>rnd\<close> is the value the
  manager draws if it draws one. The source calls \<open>Backend\<close> with no destination in
  the context.
\<close>

type_synonym frontendVars = "int64 \<times> backend option"

definition serveRecvFrontend_pkt ::
  "ProxyServer \<Rightarrow> nat \<Rightarrow> nat \<Rightarrow> frontendVars \<Rightarrow> Packet \<Rightarrow> panic + (ProxyServer \<times> frontendVars)" where
  "serveRecvFrontend_pkt s stream rnd vars pkt =
     (case vars of (firstConnID, be) \<Rightarrow>
        (case pkt of
           DialRequest proto address rand \<Rightarrow>
             (case Backend (BackendManager s) (storage s) None rnd of
                Inl p \<Rightarrow> Inl p
              | Inr (Inl err) \<Rightarrow> Inr (s, (firstConnID, None))
              | Inr (Inr b) \<Rightarrow>
                  (case newConnection s
                          (zeroConnection\<lparr>Mode := ''grpc'', Grpc := Some stream, backend := Some b\<rparr>) of
                     (r, s1) \<Rightarrow>
                       Inr (backend_Send (PendingDial_Add s1 rand r) b pkt, (firstConnID, Some b))))
         | CloseRequest cid \<Rightarrow>
             (case be of
                None \<Rightarrow> Inr (s, (firstConnID, be))
              | Some b \<Rightarrow> Inr (backend_Send s b pkt, (firstConnID, be)))
         | Data cid d \<Rightarrow>
             (let firstConnID' = (if firstConnID = 0 then cid else firstConnID)
              in case be of
                   None \<Rightarrow> Inr (s, (firstConnID', be))
                 | Some b \<Rightarrow> Inr (backend_Send s b pkt, (firstConnID', be)))
         | _ \<Rightarrow> Inr (s, (firstConnID, be))))"

text \<open>What the handler does once the channel is closed.\<close>

definition serveRecvFrontend_end :: "ProxyServer \<Rightarrow> frontendVars \<Rightarrow> ProxyServer" where
  "serveRecvFrontend_end s vars =
     (case vars of (firstConnID, be) \<Rightarrow>
        (case be of
           None \<Rightarrow> s
         | Some b \<Rightarrow> backend_Send s b (CloseRequest firstConnID)))"

text \<open>
  The loop over the packets the channel delivers, each with the value the manager
  would draw at that turn, and the whole handler from its first packet to the end of
  the stream.
\<close>

fun serveRecvFrontend_loop ::
  "ProxyServer \<Rightarrow> nat \<Rightarrow> frontendVars \<Rightarrow> (Packet \<times> nat) list \<Rightarrow> panic + (ProxyServer \<times> frontendVars)" where
  "serveRecvFrontend_loop s stream vars [] = Inr (s, vars)"
| "serveRecvFrontend_loop s stream vars ((pkt, rnd) # rest) =
     (case serveRecvFrontend_pkt s stream rnd vars pkt of
        Inl p \<Rightarrow> Inl p
      | Inr (s1, vars1) \<Rightarrow> serveRecvFrontend_loop s1 stream vars1 rest)"

definition serveRecvFrontend ::
  "ProxyServer \<Rightarrow> nat \<Rightarrow> (Packet \<times> nat) list \<Rightarrow> panic + ProxyServer" where
  "serveRecvFrontend s stream recvCh =
     (case serveRecvFrontend_loop s stream (0, None) recvCh of
        Inl p \<Rightarrow> Inl p
      | Inr (s1, vars) \<Rightarrow> Inr (serveRecvFrontend_end s1 vars))"

section \<open>Frontend handler (HTTP CONNECT tunnel)\<close>

text \<open>
  The \<open>http.ResponseWriter\<close> of the standard library, as far as the handler uses
  it: the status line is fixed by the first \<open>WriteHeader\<close>, a later one is dropped,
  and once the connection is hijacked the writer sends nothing more. \<open>status\<close> is
  the status line the client gets, \<open>None\<close> while none is fixed. \<open>http.Error\<close> sets
  the status through \<open>WriteHeader\<close> and writes a body, which is not modelled.
\<close>

record ResponseWriter =
  status :: "nat option"
  hijacked :: bool

definition WriteHeader :: "ResponseWriter \<Rightarrow> nat \<Rightarrow> ResponseWriter" where
  "WriteHeader w code =
     (if hijacked w \<or> status w \<noteq> None then w else w\<lparr>status := Some code\<rparr>)"

definition http_Error :: "ResponseWriter \<Rightarrow> nat \<Rightarrow> ResponseWriter" where
  "http_Error w code = WriteHeader w code"

definition StatusOK :: nat where "StatusOK = 200"
definition StatusMethodNotAllowed :: nat where "StatusMethodNotAllowed = 405"
definition StatusInternalServerError :: nat where "StatusInternalServerError = 500"

text \<open>
  \<open>hijacker.Hijack()\<close>: \<open>result\<close> is the error or the socket the server hands
  over; on success the writer is detached from the connection.
\<close>

definition Hijack :: "ResponseWriter \<Rightarrow> error + nat \<Rightarrow> ResponseWriter \<times> (error + nat)" where
  "Hijack w result =
     (case result of
        Inl e \<Rightarrow> (w, Inl e)
      | Inr sock \<Rightarrow> (w\<lparr>hijacked := True\<rparr>, Inr sock))"

text \<open>\<open>strings.Split(r.Host, ":")[0]\<close>: the host up to its first colon.\<close>

definition host_ip :: "string \<Rightarrow> string" where
  "host_ip host = takeWhile (\<lambda>c. c \<noteq> CHR '':'') host"

text \<open>
  \<open>Tunnel.ServeHTTP\<close> up to the point where it waits on \<open>connection.connected\<close>.
  The request gives \<open>method\<close> and \<open>host\<close>; \<open>isHijacker\<close> tells whether the writer
  implements \<open>http.Hijacker\<close>, \<open>hj\<close> is what \<open>Hijack\<close> returns, \<open>random\<close> is the
  value of \<open>rand.Int63()\<close>, \<open>rnd\<close> the value the manager draws, \<open>io\<close> what
  \<open>backend.Send\<close> returns. The handler either has returned or is blocked on the
  channel of the record it created; \<open>defer conn.Close()\<close> comes after that wait in
  the source, so no path below closes the socket. The log lines at the top of the
  handler are left out.
\<close>

datatype tunnelOutcome = Returned | AwaitingConnected nat

definition ServeHTTP ::
  "ProxyServer \<Rightarrow> ResponseWriter \<Rightarrow> string \<Rightarrow> string \<Rightarrow> bool \<Rightarrow> error + nat \<Rightarrow> int64 \<Rightarrow> nat
     \<Rightarrow> error option \<Rightarrow> panic + (ProxyServer \<times> ResponseWriter \<times> tunnelOutcome)" where
  "ServeHTTP s w method host isHijacker hj random rnd io =
     (if method \<noteq> ''CONNECT'' then Inr (s, http_Error w StatusMethodNotAllowed, Returned)
      else if \<not> isHijacker then Inr (s, http_Error w StatusInternalServerError, Returned)
      else
        (case Hijack (WriteHeader w StatusOK) hj of
           (w1, Inl e) \<Rightarrow> Inr (s, http_Error w1 StatusInternalServerError, Returned)
         | (w1, Inr sock) \<Rightarrow>
             (let dialRequest = DialRequest ''tcp'' host random;
                  ctx = (if proxyStrategy s = ''destIP'' then Some (StringValue (host_ip host))
                         else None)
              in case Backend (BackendManager s) (storage s) ctx rnd of
                   Inl p \<Rightarrow> Inl p
                 | Inr (Inl err) \<Rightarrow> Inr (s, http_Error w1 StatusInternalServerError, Returned)
                 | Inr (Inr b) \<Rightarrow>
                     (case newConnection s
                             (zeroConnection\<lparr>Mode := ''http-connect'', HTTP := Some sock,
                                             backend := Some b\<rparr>) of
                        (connection, s1) \<Rightarrow>
                          (let s2 = backend_Send (PendingDial_Add s1 random connection) b dialRequest
                           in case io of
                                Some e \<Rightarrow> Inr (s2, w1, Returned)
                              | None \<Rightarrow> Inr (s2, w1, AwaitingConnected connection))))))"

section \<open>Runs of the server\<close>

text \<open>
  What can happen to the server, one handler turn at a time: an agent stream is
  registered by \<open>Connect\<close> or removed when \<open>Connect\<close> returns, the backend handler
  takes a packet or runs its deferred function, the gRPC frontend handler takes a
  packet or reaches the end of its stream, a CONNECT request is served up to its wait.
  The local variables of a frontend handler come with the event, and so do the
  handle and the agentID of a backend handler: a run may pair them in any way, which
  only adds states. Each turn is taken as a whole; turns of different handlers
  alternate in any order. What the tunnel handler does after its wait (it copies
  bytes from the socket to the backend and closes the socket) reads the record and
  changes neither table.
\<close>

datatype event =
    Connect agentID nat
  | ConnectReturn agentID nat
  | BackendPacket agentID Packet "error option"
  | BackendStreamEnd agentID backend "int64 list" "nat \<Rightarrow> error option"
  | FrontendPacket nat nat frontendVars Packet
  | FrontendStreamEnd frontendVars
  | TunnelRequest ResponseWriter string string bool "error + nat" int64 nat "error option"

fun step :: "ProxyServer \<Rightarrow> event \<Rightarrow> panic + ProxyServer" where
  "step s (Connect a c) = Inr (s\<lparr>storage := snd (AddBackend (storage s) a c)\<rparr>)"
| "step s (ConnectReturn a c) =
     (case RemoveBackend (storage s) a c of
        Inl p \<Rightarrow> Inl p
      | Inr st \<Rightarrow> Inr (s\<lparr>storage := st\<rparr>))"
| "step s (BackendPacket a pkt io) = serveRecvBackend_pkt s a pkt io"
| "step s (BackendStreamEnd a be ks io) = serveRecvBackend_deferred s a be ks io"
| "step s (FrontendPacket stream rnd vars pkt) =
     (case serveRecvFrontend_pkt s stream rnd vars pkt of
        Inl p \<Rightarrow> Inl p
      | Inr (s1, vars1) \<Rightarrow> Inr s1)"
| "step s (FrontendStreamEnd vars) = Inr (serveRecvFrontend_end s vars)"
| "step s (TunnelRequest w method host isHijacker hj random rnd io) =
     (case ServeHTTP s w method host isHijacker hj random rnd io of
        Inl p \<Rightarrow> Inl p
      | Inr (s1, w1, out) \<Rightarrow> Inr s1)"

fun run :: "ProxyServer \<Rightarrow> event list \<Rightarrow> panic + ProxyServer" where
  "run s [] = Inr s"
| "run s (e # es) = (case step s e of Inl p \<Rightarrow> Inl p | Inr s1 \<Rightarrow> run s1 es)"

text \<open>The same for the storage alone.\<close>

datatype storage_op = Add agentID nat | Remove agentID nat

fun storage_step :: "DefaultBackendStorage \<Rightarrow> storage_op \<Rightarrow> panic + DefaultBackendStorage" where
  "storage_step s (Add a c) = Inr (snd (AddBackend s a c))"
| "storage_step s (Remove a c) = RemoveBackend s a c"

fun storage_run :: "DefaultBackendStorage \<Rightarrow> storage_op list \<Rightarrow> panic + DefaultBackendStorage" where
  "storage_run s [] = Inr s"
| "storage_run s (x # xs) = (case storage_step s x of Inl p \<Rightarrow> Inl p | Inr s1 \<Rightarrow> storage_run s1 xs)"

section \<open>Invariants\<close>

text \<open>
  What \<open>AddBackend\<close> and \<open>RemoveBackend\<close> keep true of the storage: the map has
  one entry per key, the slice \<open>agentIDs\<close> lists the keys of the map once each, and
  every agent has a non-empty list of handles wrapping pairwise different streams.
\<close>

definition storage_inv :: "DefaultBackendStorage \<Rightarrow> bool" where
  "storage_inv s \<longleftrightarrow>
     distinct (map fst (backends s)) \<and> distinct (agentIDs s) \<and>
     set (agentIDs s) = fst ` set (backends s) \<and>
     (\<forall>a hs. map_of (backends s) a = Some hs \<longrightarrow> hs \<noteq> [] \<and> distinct (map conn hs))"

text \<open>
  What the handlers keep true of the two tables. A record is well formed for its
  mode when the transport its mode uses is there. A record in the pending table has
  been allocated, its channel \<open>connected\<close> is open, and it stands under one nonce
  only. An inner map of \<open>frontends\<close> is never empty, and a record in it has been
  allocated, its channel is closed, and its fields \<open>connectID\<close> and \<open>agentID\<close>
  are the keys it stands under.
\<close>

definition wf_mode :: "ProxyClientConnection \<Rightarrow> bool" where
  "wf_mode c \<longleftrightarrow>
     (Mode c = ''grpc'' \<longrightarrow> Grpc c \<noteq> None) \<and> (Mode c = ''http-connect'' \<longrightarrow> HTTP c \<noteq> None)"

definition pending_inv :: "ProxyServer \<Rightarrow> bool" where
  "pending_inv s \<longleftrightarrow>
     (\<forall>n r. PendingDial s n = Some r \<longrightarrow>
        r < nextRef s \<and> \<not> connected (heap s r) \<and> wf_mode (heap s r)) \<and>
     (\<forall>n n' r. PendingDial s n = Some r \<and> PendingDial s n' = Some r \<longrightarrow> n = n')"

definition entry_ok :: "ProxyServer \<Rightarrow> agentID \<Rightarrow> int64 \<Rightarrow> nat \<Rightarrow> bool" where
  "entry_ok s a cid r \<longleftrightarrow>
     r < nextRef s \<and> connected (heap s r) \<and> connectID (heap s r) = cid \<and>
     agentID (heap s r) = a \<and> wf_mode (heap s r)"

definition frontends_inv :: "ProxyServer \<Rightarrow> bool" where
  "frontends_inv s \<longleftrightarrow>
     (\<forall>a conns. frontends s a = Some conns \<longrightarrow>
        conns \<noteq> [] \<and> distinct (map fst conns) \<and>
        (\<forall>cid r. map_of conns cid = Some r \<longrightarrow> entry_ok s a cid r))"

definition server_inv :: "ProxyServer \<Rightarrow> bool" where
  "server_inv s \<longleftrightarrow> pending_inv s \<and> frontends_inv s"

text \<open>The record at \<open>r\<close> is in the pending table, or in the frontend registry.\<close>

definition in_pending :: "ProxyServer \<Rightarrow> nat \<Rightarrow> bool" where
  "in_pending s r \<longleftrightarrow> (\<exists>n. PendingDial s n = Some r)"

definition in_registry :: "ProxyServer \<Rightarrow> nat \<Rightarrow> bool" where
  "in_registry s r \<longleftrightarrow> (\<exists>a conns cid. frontends s a = Some conns \<and> map_of conns cid = Some r)"


section \<open>Vocabulary of the claims about the gRPC frontend handler\<close>

text \<open>The connIDs of the DATA packets of a stream, in order of arrival.\<close>

fun data_connIDs :: "Packet list \<Rightarrow> int64 list" where
  "data_connIDs [] = []"
| "data_connIDs (Data cid d # ps) = cid # data_connIDs ps"
| "data_connIDs (p # ps) = data_connIDs ps"

text \<open>
  In the words of the spec: the first connID observed in DATA packets on the
  stream, if the stream had a DATA packet.
\<close>

definition first_connID_observed :: "Packet list \<Rightarrow> int64 option" where
  "first_connID_observed ps = (case data_connIDs ps of [] \<Rightarrow> None | cid # _ \<Rightarrow> Some cid)"

text \<open>The first connID other than 0 among the DATA packets, and 0 when there is none.\<close>

definition first_nonzero_connID :: "Packet list \<Rightarrow> int64" where
  "first_nonzero_connID ps =
     (case filter (\<lambda>cid. cid \<noteq> 0) (data_connIDs ps) of [] \<Rightarrow> 0 | cid # _ \<Rightarrow> cid)"

text \<open>
  The handle selected for the last DIAL_REQ of the stream, on a storage that does not
  change meanwhile: none when that selection returned an error, \<open>be\<close> when the
  stream has no DIAL_REQ.
\<close>

fun last_selection ::
  "BackendManagerKind \<Rightarrow> DefaultBackendStorage \<Rightarrow> backend option \<Rightarrow> (Packet \<times> nat) list
     \<Rightarrow> backend option" where
  "last_selection k st be [] = be"
| "last_selection k st be ((DialRequest proto address rand, rnd) # rest) =
     last_selection k st
       (case Backend k st None rnd of Inr (Inr b) \<Rightarrow> Some b | _ \<Rightarrow> None) rest"
| "last_selection k st be ((pkt, rnd) # rest) = last_selection k st be rest"

section \<open>States used as examples\<close>

text \<open>A new server of the default strategy, and the same once agent A has connected.\<close>

definition new_server :: ProxyServer where
  "new_server = NewProxyServer DefaultBackendManager ''default''"

definition one_agent_server :: ProxyServer where
  "one_agent_server = new_server\<lparr>storage := snd (AddBackend NewDefaultBackendStorage ''A'' 1)\<rparr>"

text \<open>A response writer on which nothing has been written.\<close>

definition new_writer :: ResponseWriter where
  "new_writer = \<lparr>status = None, hijacked = False\<rparr>"

section \<open>The DIAL_RSP turn, one operation at a time\<close>

text \<open>
  The backend handler holds no lock across the DIAL_RSP case: \<open>PendingDial.Get\<close>,
  \<open>frontend.send\<close>, \<open>PendingDial.Remove\<close>, the two field writes, \<open>addFrontend\<close>
  and \<open>close\<close> are separate operations, and other handlers run between them. A
  \<open>dialTurn\<close> is a backend handler inside that case: its agentID, the fields
  \<open>Error\<close>, \<open>ConnectID\<close> and \<open>Random\<close> of the response, what the frontend's
  transport will return, and the operation it does next. From \<open>AtSend\<close> on it holds
  the record \<open>frontend\<close> it got from the table; \<open>AtRemove\<close> also holds \<open>dialErr\<close>.
\<close>

datatype dialPC =
    AtGet
  | AtSend nat
  | AtRemove nat bool
  | AtSetConnectID nat
  | AtSetAgentID nat
  | AtAddFrontend nat
  | AtClose nat

datatype dialTurn = DialTurn agentID string int64 int64 "error option" dialPC

text \<open>
  The next operation of a turn, in the order of the source; the turn that is left,
  \<open>None\<close> once the case is over.
\<close>

fun dial_rsp_step :: "ProxyServer \<Rightarrow> dialTurn \<Rightarrow> panic + (ProxyServer \<times> dialTurn option)" where
  "dial_rsp_step s (DialTurn a err cid rand io AtGet) =
     (case PendingDial_Get s rand of
        None \<Rightarrow> Inr (s, None)
      | Some frontend \<Rightarrow> Inr (s, Some (DialTurn a err cid rand io (AtSend frontend))))"
| "dial_rsp_step s (DialTurn a err cid rand io (AtSend frontend)) =
     (case frontend_send s frontend (DialResponse err cid rand) io of
        Inl p \<Rightarrow> Inl p
      | Inr (s1, e) \<Rightarrow>
          Inr (s1, Some (DialTurn a err cid rand io (AtRemove frontend (err \<noteq> [] \<or> e \<noteq> None)))))"
| "dial_rsp_step s (DialTurn a err cid rand io (AtRemove frontend dialErr)) =
     (if dialErr then Inr (PendingDial_Remove s rand, None)
      else Inr (PendingDial_Remove s rand,
                Some (DialTurn a err cid rand io (AtSetConnectID frontend))))"
| "dial_rsp_step s (DialTurn a err cid rand io (AtSetConnectID frontend)) =
     Inr (s\<lparr>heap := (heap s)(frontend := (heap s frontend)\<lparr>connectID := cid\<rparr>)\<rparr>,
          Some (DialTurn a err cid rand io (AtSetAgentID frontend)))"
| "dial_rsp_step s (DialTurn a err cid rand io (AtSetAgentID frontend)) =
     Inr (s\<lparr>heap := (heap s)(frontend := (heap s frontend)\<lparr>agentID := a\<rparr>)\<rparr>,
          Some (DialTurn a err cid rand io (AtAddFrontend frontend)))"
| "dial_rsp_step s (DialTurn a err cid rand io (AtAddFrontend frontend)) =
     Inr (addFrontend s a cid frontend, Some (DialTurn a err cid rand io (AtClose frontend)))"
| "dial_rsp_step s (DialTurn a err cid rand io (AtClose frontend)) =
     (case close_connected s frontend of
        Inl p \<Rightarrow> Inl p
      | Inr s1 \<Rightarrow> Inr (s1, None))"

text \<open>A turn run for at most \<open>k\<close> operations with nothing in between.\<close>

fun dial_rsp_steps ::
  "nat \<Rightarrow> ProxyServer \<Rightarrow> dialTurn option \<Rightarrow> panic + (ProxyServer \<times> dialTurn option)" where
  "dial_rsp_steps k s None = Inr (s, None)"
| "dial_rsp_steps 0 s (Some t) = Inr (s, Some t)"
| "dial_rsp_steps (Suc k) s (Some t) =
     (case dial_rsp_step s t of
        Inl p \<Rightarrow> Inl p
      | Inr (s1, t1) \<Rightarrow> dial_rsp_steps k s1 t1)"

text \<open>
  The server with the backend handlers that are inside a DIAL_RSP case, by handler
  number, and what can happen to it, one operation on a table at a time.
  \<open>Turn\<close> is a whole turn of \<open>step\<close> other than a DIAL_RSP turn; such a turn
  works on the tables at most by one \<open>PendingDial.Add\<close> or by calls of
  \<open>removeFrontend\<close>. \<open>NewPending\<close> is the composite literal and the
  \<open>PendingDial.Add\<close> of a frontend handler on their own, with any record, and
  \<open>RemoveFrontendCall\<close> a call of \<open>removeFrontend\<close> of a CLOSE_RSP turn or of the
  cleanup on its own, with any key: they stand for the turns whose table operation
  comes later than the reads it depends on. \<open>DialRspArrives\<close> puts an idle
  backend handler into the DIAL_RSP case, \<open>DialRspStep\<close> lets a handler do its
  next operation.
\<close>

type_synonym conc = "ProxyServer \<times> (nat \<Rightarrow> dialTurn option)"

datatype micro =
    Turn event
  | NewPending int64 ProxyClientConnection
  | RemoveFrontendCall agentID int64
  | DialRspArrives nat agentID string int64 int64 "error option"
  | DialRspStep nat

fun is_dial_rsp :: "event \<Rightarrow> bool" where
  "is_dial_rsp (BackendPacket a (DialResponse err cid rand) io) = True"
| "is_dial_rsp ev = False"

fun micro_step :: "conc \<Rightarrow> micro \<Rightarrow> panic + conc" where
  "micro_step (s, th) (Turn ev) =
     (if is_dial_rsp ev then Inr (s, th)
      else (case step s ev of Inl p \<Rightarrow> Inl p | Inr s1 \<Rightarrow> Inr (s1, th)))"
| "micro_step (s, th) (NewPending rand c) =
     Inr (PendingDial_Add (snd (newConnection s c)) rand (fst (newConnection s c)), th)"
| "micro_step (s, th) (RemoveFrontendCall a cid) = Inr (removeFrontend s a cid, th)"
| "micro_step (s, th) (DialRspArrives h a err cid rand io) =
     (case th h of
        None \<Rightarrow> Inr (s, th(h \<mapsto> DialTurn a err cid rand io AtGet))
      | Some t \<Rightarrow> Inr (s, th))"
| "micro_step (s, th) (DialRspStep h) =
     (case th h of
        None \<Rightarrow> Inr (s, th)
      | Some t \<Rightarrow>
          (case dial_rsp_step s t of
             Inl p \<Rightarrow> Inl p
           | Inr (s1, t1) \<Rightarrow> Inr (s1, th(h := t1))))"

fun micro_run :: "conc \<Rightarrow> micro list \<Rightarrow> panic + conc" where
  "micro_run cs [] = Inr cs"
| "micro_run cs (m # ms) =
     (case micro_step cs m of Inl p \<Rightarrow> Inl p | Inr cs1 \<Rightarrow> micro_run cs1 ms)"

text \<open>
  What the operations keep true, whatever the order: a pending record has been
  allocated and stands under one nonce; a record in the registry has been allocated
  and is not pending; a handler that has got its record and not yet removed the
  nonce holds an allocated record that is pending, if at all, under that nonce; a
  handler between its \<open>Remove\<close> and its \<open>addFrontend\<close> holds an allocated record
  that is not pending.
\<close>

fun turn_ok :: "ProxyServer \<Rightarrow> dialTurn \<Rightarrow> bool" where
  "turn_ok s (DialTurn a err cid rand io AtGet) = True"
| "turn_ok s (DialTurn a err cid rand io (AtSend r)) =
     (r < nextRef s \<and> (\<forall>n. PendingDial s n = Some r \<longrightarrow> n = rand))"
| "turn_ok s (DialTurn a err cid rand io (AtRemove r dialErr)) =
     (r < nextRef s \<and> (\<forall>n. PendingDial s n = Some r \<longrightarrow> n = rand))"
| "turn_ok s (DialTurn a err cid rand io (AtSetConnectID r)) =
     (r < nextRef s \<and> \<not> in_pending s r)"
| "turn_ok s (DialTurn a err cid rand io (AtSetAgentID r)) =
     (r < nextRef s \<and> \<not> in_pending s r)"
| "turn_ok s (DialTurn a err cid rand io (AtAddFrontend r)) =
     (r < nextRef s \<and> \<not> in_pending s r)"
| "turn_ok s (DialTurn a err cid rand io (AtClose r)) = True"

definition micro_inv :: "conc \<Rightarrow> bool" where
  "micro_inv cs \<longleftrightarrow>
     (\<forall>n r. PendingDial (fst cs) n = Some r \<longrightarrow> r < nextRef (fst cs)) \<and>
     (\<forall>n n' r. PendingDial (fst cs) n = Some r \<and> PendingDial (fst cs) n' = Some r \<longrightarrow> n = n') \<and>
     (\<forall>r. in_registry (fst cs) r \<longrightarrow> r < nextRef (fst cs) \<and> \<not> in_pending (fst cs) r) \<and>
     (\<forall>h t. snd cs h = Some t \<longrightarrow> turn_ok (fst cs) t)"

section \<open>The storage: removal loops and the invariant\<close>

lemma removeRange_no_match:
  "\<forall>i \<in> set is. conn (arr ! i) \<noteq> c \<Longrightarrow> removeRange c is (arr, m, f) = Inr (arr, m, f)"
  by (induction "is") auto

lemma removeRange_append:
  "removeRange c (is1 @ is2) st =
     (case removeRange c is1 st of Inl p \<Rightarrow> Inl p | Inr st1 \<Rightarrow> removeRange c is2 st1)"
proof (induction is1 arbitrary: st)
  case Nil
  then show ?case by simp
next
  case (Cons i is1)
  obtain arr m f where st: "st = (arr, m, f)" by (cases st)
  show ?case unfolding st using Cons.IH by simp
qed

lemma filter_conn_absent:
  "c \<notin> conn ` set hs \<Longrightarrow> filter (\<lambda>b. conn b \<noteq> c) hs = hs"
  by (induction hs) auto

lemma filter_conn_at:
  "distinct (map conn hs) \<Longrightarrow> k < length hs \<Longrightarrow> conn (hs ! k) = c \<Longrightarrow>
   filter (\<lambda>b. conn b \<noteq> c) hs = take k hs @ drop (Suc k) hs"
proof (induction hs arbitrary: k)
  case Nil
  then show ?case by simp
next
  case (Cons h hs)
  show ?case
  proof (cases k)
    case 0
    with Cons.prems have "c \<notin> conn ` set hs" by auto
    with 0 Cons.prems show ?thesis by (simp add: filter_conn_absent)
  next
    case (Suc j)
    with Cons.prems have "conn h \<noteq> c" by (auto simp: image_iff) 
    with Suc Cons show ?thesis by simp
  qed
qed

lemma removeRange_distinct:
  assumes d: "distinct (map conn hs)"
  shows "case removeRange c [0..<length hs] (hs, length hs, False) of
           Inl p \<Rightarrow> False
         | Inr (arr, m, f) \<Rightarrow> take m arr = filter (\<lambda>b. conn b \<noteq> c) hs"
proof (cases "c \<in> conn ` set hs")
  case False
  then have "\<forall>i \<in> set [0..<length hs]. conn (hs ! i) \<noteq> c"
    by (auto simp: image_iff) 
  then have "removeRange c [0..<length hs] (hs, length hs, False) = Inr (hs, length hs, False)"
    by (rule removeRange_no_match)
  with False show ?thesis by (simp add: filter_conn_absent)
next
  case True
  then obtain k where k: "k < length hs" "conn (hs ! k) = c"
    by (auto simp: in_set_conv_nth)
  let ?n = "length hs"
  have uniq: "\<And>j. j < ?n \<Longrightarrow> conn (hs ! j) = c \<Longrightarrow> j = k"
    using d k by (metis distinct_conv_nth length_map nth_map)
  have split: "[0..<?n] = [0..<k] @ k # [Suc k..<?n]"
    using k(1) by (metis le0 less_imp_le_nat upt_add_eq_append upt_conv_Cons le_add_diff_inverse)
  have "\<forall>i \<in> set [0..<k]. conn (hs ! i) \<noteq> c"
  proof
    fix i assume "i \<in> set [0..<k]"
    then have "i < k" by simp
    with k(1) uniq[of i] show "conn (hs ! i) \<noteq> c" by auto
  qed
  then have pre: "removeRange c [0..<k] (hs, ?n, False) = Inr (hs, ?n, False)"
    by (rule removeRange_no_match)
  let ?arr = "take k hs @ drop (k + 1) (take ?n hs) @ drop (?n - 1) hs"
  have len: "length ?arr = ?n" using k(1) by simp
  have post: "\<forall>i \<in> set [Suc k..<?n]. conn (?arr ! i) \<noteq> c"
  proof
    fix i assume "i \<in> set [Suc k..<?n]"
    then have i: "k < i" "i < ?n" by auto
    show "conn (?arr ! i) \<noteq> c"
    proof (cases "i < ?n - 1")
      case True
      then have "?arr ! i = hs ! Suc i"
        using i k(1) by (simp add: nth_append)
      moreover have "Suc i \<noteq> k" "Suc i < ?n" using i True by auto
      ultimately show ?thesis using uniq[of "Suc i"] by auto
    next
      case False
      then have "i = ?n - 1" using i by simp
      then have "?arr ! i = hs ! i"
        using i k(1) by (simp add: nth_append)
      then show ?thesis using uniq[of i] i by auto
    qed
  qed
  have "removeRange c [0..<?n] (hs, ?n, False) = removeRange c (k # [Suc k..<?n]) (hs, ?n, False)"
    by (subst split, subst removeRange_append) (simp add: pre)
  also have "\<dots> = removeRange c [Suc k..<?n] (?arr, ?n - 1, True)"
    using k by simp
  also have "\<dots> = Inr (?arr, ?n - 1, True)"
    using post by (rule removeRange_no_match)
  finally have r: "removeRange c [0..<?n] (hs, ?n, False) = Inr (?arr, ?n - 1, True)" .
  have "take (?n - 1) ?arr = take k hs @ drop (Suc k) hs"
    using k(1) by simp
  with r filter_conn_at[OF d k] show ?thesis by simp
qed

lemma firstIndex_None: "firstIndex a xs = None \<longleftrightarrow> a \<notin> set xs"
  by (induction xs) auto

lemma firstIndex_Some: "firstIndex a xs = Some i \<Longrightarrow> i < length xs \<and> xs ! i = a"
  by (induction xs arbitrary: i) (auto split: if_splits)

lemma swap_last_remove:
  assumes d: "distinct xs" and i: "i < length xs"
  shows "distinct (butlast (xs[i := last xs])) \<and> set (butlast (xs[i := last xs])) = set xs - {xs ! i}"
proof -
  from i have ne: "xs \<noteq> []" by auto
  then obtain ys y where xs: "xs = ys @ [y]" by (metis append_butlast_last_id)
  show ?thesis
  proof (cases "i = length ys")
    case True
    then show ?thesis using d xs by auto
  next
    case False
    then have il: "i < length ys" using i xs by auto
    then have "butlast (xs[i := last xs]) = ys[i := y]"
      using xs by (simp add: list_update_append)
    moreover have "distinct (ys[i := y])"
      using d xs il by (simp add: distinct_list_update)
    moreover have "set (ys[i := y]) = insert y (set ys - {ys ! i})"
      using d xs il by (simp add: set_update_distinct)
    moreover have "xs ! i = ys ! i" using il xs by (simp add: nth_append)
    moreover have "ys ! i \<noteq> y" using d xs il by auto
    ultimately show ?thesis using xs d by auto
  qed
qed

lemma removeAgentID_distinct:
  "distinct ids \<Longrightarrow> distinct (removeAgentID a ids) \<and> set (removeAgentID a ids) = set ids - {a}"
  unfolding removeAgentID_def
  by (auto split: option.splits simp: firstIndex_None dest!: firstIndex_Some
      dest: swap_last_remove)

lemma map_of_Some_key: "map_of al k = Some v \<Longrightarrow> k \<in> fst ` set al"
  by (metis map_of_eq_None_iff option.distinct(1))

lemma removeRange_result:
  assumes d: "distinct (map conn hs)"
  obtains arr m f where "removeRange c [0..<length hs] (hs, length hs, False) = Inr (arr, m, f)"
    and "take m arr = filter (\<lambda>b. conn b \<noteq> c) hs"
proof (cases "removeRange c [0..<length hs] (hs, length hs, False)")
  case (Inl p)
  with removeRange_distinct[OF d, of c] show ?thesis by simp
next
  case (Inr st)
  obtain arr m f where "st = (arr, m, f)" by (cases st)
  with Inr removeRange_distinct[OF d, of c] that show ?thesis by simp
qed

lemma delete_keys_set: "fst ` set (AList.delete a al) = fst ` set al - {a}"
  by (induction al) auto

lemma RemoveBackend_present:
  assumes "map_of (backends s) a = Some hs" and "distinct (map conn hs)"
  shows "RemoveBackend s a c =
           (if filter (\<lambda>b. conn b \<noteq> c) hs = []
            then Inr (s\<lparr>backends := AList.delete a (backends s),
                        agentIDs := removeAgentID a (agentIDs s)\<rparr>)
            else Inr (s\<lparr>backends := AList.update a (filter (\<lambda>b. conn b \<noteq> c) hs) (backends s)\<rparr>))"
proof -
  from removeRange_result[OF assms(2), of c] obtain arr m f
    where r: "removeRange c [0..<length hs] (hs, length hs, False) = Inr (arr, m, f)"
      and t: "take m arr = filter (\<lambda>b. conn b \<noteq> c) hs" by blast
  have "RemoveBackend s a c =
          (if length (take m arr) = 0
                then Inr (s\<lparr>backends := AList.delete a (backends s),
                            agentIDs := removeAgentID a (agentIDs s)\<rparr>)
                else Inr (s\<lparr>backends := AList.update a (take m arr) (backends s)\<rparr>))"
    by (simp only: RemoveBackend_def assms(1) r option.case sum.case prod.case)
  then show ?thesis unfolding t by (simp only: length_0_conv)
qed

lemma RemoveBackend_absent:
  "map_of (backends s) a = None \<Longrightarrow> RemoveBackend s a c = Inr s"
  by (simp add: RemoveBackend_def)

lemma storage_inv_delete:
  assumes inv: "storage_inv s"
  shows "storage_inv (s\<lparr>backends := AList.delete a (backends s),
                          agentIDs := removeAgentID a (agentIDs s)\<rparr>)"
proof -
  have k: "fst ` set (AList.delete a (backends s)) = fst ` set (backends s) - {a}"
    by (rule delete_keys_set)
  have d: "distinct (map fst (AList.delete a (backends s)))"
    using inv by (simp add: storage_inv_def distinct_delete)
  have r: "distinct (removeAgentID a (agentIDs s))"
    "set (removeAgentID a (agentIDs s)) = fst ` set (backends s) - {a}"
    using inv removeAgentID_distinct[of "agentIDs s" a] by (simp_all add: storage_inv_def)
  have l: "hs \<noteq> [] \<and> distinct (map conn hs)"
    if "map_of (AList.delete a (backends s)) a' = Some hs" for a' hs
  proof -
    from that have "map_of (backends s) a' = Some hs"
      by (simp add: delete_conv' split: if_splits)
    with inv show ?thesis unfolding storage_inv_def by blast
  qed
  show ?thesis
    unfolding storage_inv_def using k d r l by simp
qed

lemma storage_inv_update:
  assumes inv: "storage_inv s" and a: "map_of (backends s) a = Some hs0"
    and hs: "hs \<noteq> []" "distinct (map conn hs)"
  shows "storage_inv (s\<lparr>backends := AList.update a hs (backends s)\<rparr>)"
proof -
  from a have "a \<in> fst ` set (backends s)" by (rule map_of_Some_key)
  then have k: "fst ` set (AList.update a hs (backends s)) = fst ` set (backends s)"
    by (auto simp: dom_update)
  have d: "distinct (map fst (AList.update a hs (backends s)))"
    using inv by (simp add: storage_inv_def distinct_update)
  have l: "hs' \<noteq> [] \<and> distinct (map conn hs')"
    if "map_of (AList.update a hs (backends s)) a' = Some hs'" for a' hs'
  proof (cases "a' = a")
    case True
    with that hs show ?thesis by (simp add: update_conv')
  next
    case False
    with that have "map_of (backends s) a' = Some hs'" by (simp add: update_conv')
    with inv show ?thesis unfolding storage_inv_def by blast
  qed
  show ?thesis
    unfolding storage_inv_def using k d l inv by (simp add: storage_inv_def)
qed

lemma RemoveBackend_inv:
  assumes inv: "storage_inv s"
  shows "\<exists>s'. RemoveBackend s a c = Inr s' \<and> storage_inv s'"
proof (cases "map_of (backends s) a")
  case None
  with inv show ?thesis by (simp add: RemoveBackend_absent)
next
  case (Some hs)
  from inv Some have d: "distinct (map conn hs)" unfolding storage_inv_def by blast
  show ?thesis
  proof (cases "filter (\<lambda>b. conn b \<noteq> c) hs = []")
    case True
    then show ?thesis
      using RemoveBackend_present[OF Some d, of c] storage_inv_delete[OF inv, of a] by simp
  next
    case False
    moreover have "distinct (map conn (filter (\<lambda>b. conn b \<noteq> c) hs))"
      using d by (rule distinct_map_filter)
    ultimately show ?thesis
      using RemoveBackend_present[OF Some d, of c] storage_inv_update[OF inv Some]
      by simp
  qed
qed

lemma storage_inv_init: "storage_inv NewDefaultBackendStorage"
  by (simp add: storage_inv_def NewDefaultBackendStorage_def)

lemma AddBackend_inv:
  assumes "storage_inv s"
  shows "storage_inv (snd (AddBackend s a c))"
proof (cases "map_of (backends s) a")
  case None
  then have "a \<notin> fst ` set (backends s)" by (simp add: map_of_eq_None_iff)
  with assms None show ?thesis
    by (auto simp: storage_inv_def AddBackend_def newBackend_def distinct_update
        dom_update update_conv')
next
  case (Some hs)
  then have a: "a \<in> fst ` set (backends s)" by (rule map_of_Some_key)
  show ?thesis
  proof (cases "find (\<lambda>v. conn v = c) hs")
    case None
    then have "c \<notin> conn ` set hs" by (auto simp: find_None_iff)
    with assms Some None a show ?thesis
      by (auto simp: storage_inv_def AddBackend_def newBackend_def distinct_update
          dom_update update_conv')
  next
    case (Some v)
    with assms \<open>map_of (backends s) a = Some hs\<close> show ?thesis
      by (auto simp: storage_inv_def AddBackend_def newBackend_def)
  qed
qed

lemma storage_run_inv:
  "storage_inv s \<Longrightarrow> \<exists>s'. storage_run s ops = Inr s' \<and> storage_inv s'"
proof (induction ops arbitrary: s)
  case Nil
  then show ?case by simp
next
  case (Cons x ops)
  show ?case
  proof (cases x)
    case (Add a c)
    with Cons.IH[OF AddBackend_inv[OF Cons.prems, of a c]] show ?thesis by simp
  next
    case (Remove a c)
    from RemoveBackend_inv[OF Cons.prems, of a c] obtain s1
      where "RemoveBackend s a c = Inr s1" "storage_inv s1" by blast
    with Cons.IH[of s1] Remove show ?thesis by simp
  qed
qed

section \<open>Claims about the backend storage\<close>

text \<open>
  Claim C5. After any sequence of \<open>AddBackend\<close> and \<open>RemoveBackend\<close> calls on a
  new storage, no call has panicked, \<open>NumBackends\<close> is the number of distinct
  agentIDs registered, the slice \<open>agentIDs\<close> holds exactly the keys of the map
  \<open>backends\<close>, each once, and every agentID present maps to a non-empty list of
  handles.
\<close>

theorem C5_registry_counts:
  "\<exists>s. storage_run NewDefaultBackendStorage ops = Inr s \<and>
        NumBackends s = card (set (agentIDs s)) \<and>
        distinct (agentIDs s) \<and>
        distinct (map fst (backends s)) \<and>
        set (agentIDs s) = fst ` set (backends s) \<and>
        (\<forall>a \<in> set (agentIDs s). \<exists>h hs. map_of (backends s) a = Some (h # hs))"
proof -
  from storage_run_inv[OF storage_inv_init, of ops] obtain s
    where r: "storage_run NewDefaultBackendStorage ops = Inr s" and i: "storage_inv s" by blast
  have "length (backends s) = card (set (agentIDs s))"
    using i by (metis storage_inv_def distinct_card length_map list.set_map)
  moreover have "\<forall>a \<in> set (agentIDs s). \<exists>h hs. map_of (backends s) a = Some (h # hs)"
  proof
    fix a assume "a \<in> set (agentIDs s)"
    then have "a \<in> fst ` set (backends s)" using i by (simp add: storage_inv_def)
    then obtain hs where "map_of (backends s) a = Some hs"
      by (metis map_of_eq_None_iff not_Some_eq)
    moreover with i have "hs \<noteq> []" by (simp add: storage_inv_def)
    ultimately show "\<exists>h hs. map_of (backends s) a = Some (h # hs)"
      by (cases hs) auto
  qed
  ultimately show ?thesis using r i by (auto simp: NumBackends_def storage_inv_def)
qed

text \<open>
  The claim at work: two agents connect, the first opens a second stream, then the
  first stream of each goes away; one agent is left, with its second handle.
\<close>

theorem C5_registry_counts_witness:
  "\<exists>s. storage_run NewDefaultBackendStorage
          [Add ''a'' 1, Add ''b'' 2, Add ''a'' 3, Remove ''a'' 1, Remove ''b'' 2] = Inr s \<and>
        NumBackends s = 1 \<and> agentIDs s = [''a''] \<and>
        backends s = [(''a'', [\<lparr>addr = 2, conn = 3\<rparr>])]"
  using C5_registry_counts[of "[Add ''a'' 1, Add ''b'' 2, Add ''a'' 3, Remove ''a'' 1, Remove ''b'' 2]"]
  by (simp add: NewDefaultBackendStorage_def AddBackend_def newBackend_def RemoveBackend_def
      removeAgentID_def NumBackends_def upt_rec)

section \<open>Claims about lookup by agentID\<close>

lemma GetBackend_empty: "backends s = [] \<Longrightarrow> GetBackend s a = Inr None"
  by (simp add: GetBackend_def)

lemma GetBackend_registered:
  "map_of (backends s) a = Some (h # hs) \<Longrightarrow> GetBackend s a = Inr (Some h)"
  by (auto simp: GetBackend_def slice_at_def index0_def)

lemma GetBackend_unregistered:
  "backends s \<noteq> [] \<Longrightarrow> map_of (backends s) a = None \<Longrightarrow> GetBackend s a = Inl IndexOutOfRange"
  by (simp add: GetBackend_def slice_at_def index0_def)

text \<open>
  Claim C1. \<open>GetBackend\<close> is to return the index-0 handle of a registered agent and
  nil for an agent that is not registered, so that the destination-affinity manager
  answers no-backend-available for an unknown destination. The source does so for a
  registered agent and on an empty storage. With agent A registered and agent B not,
  \<open>GetBackend("B")\<close> indexes the nil slice and panics, and so does \<open>Backend\<close> of the
  destination-affinity manager for the destination B, and with it the tunnel handler
  of a server of that strategy on a CONNECT to B:443.
\<close>

theorem C1_unregistered_agent_panics:
  "GetBackend (storage one_agent_server) ''B'' = Inl IndexOutOfRange \<and>
   Backend DestIPBackendManager (storage one_agent_server) (Some (StringValue ''B'')) 0
     = Inl IndexOutOfRange \<and>
   ServeHTTP (one_agent_server\<lparr>BackendManager := DestIPBackendManager, proxyStrategy := ''destIP''\<rparr>)
       new_writer ''CONNECT'' ''B:443'' True (Inr 7) 42 0 None
     = Inl IndexOutOfRange \<and>
   GetBackend (storage one_agent_server) ''A'' = Inr (Some \<lparr>addr = 0, conn = 1\<rparr>) \<and>
   GetBackend (storage new_server) ''B'' = Inr None"
  by (simp add: GetBackend_def Backend_def found_or_ErrNotFound_def slice_at_def index0_def
      AddBackend_def newBackend_def NewDefaultBackendStorage_def one_agent_server_def
      new_server_def NewProxyServer_def ServeHTTP_def Hijack_def WriteHeader_def host_ip_def
      new_writer_def Let_def)

section \<open>Claims about the send adapter\<close>

text \<open>
  Claim C6. On a record in mode http-connect that holds its hijacked socket, \<open>send\<close>
  writes the payload of a DATA packet to the socket and nothing else, closes the
  socket for a CLOSE_RSP and for a DIAL_RSP with an error, and returns an error for
  the other packet types; a DIAL_RSP without error does nothing and returns no error.
  What the write or the close returns is what \<open>send\<close> returns. On a record whose
  mode is neither grpc nor http-connect, \<open>send\<close> returns the unknown-mode error for
  every packet and does nothing.
\<close>

theorem C6_send_adapter:
  "(Mode c = ''http-connect'' \<and> HTTP c = Some sock \<longrightarrow>
      send c (Data cid d) io = Inr ([HTTPWrite sock d], io) \<and>
      send c (CloseResponse cid) io = Inr ([HTTPClose sock], io) \<and>
      (err \<noteq> [] \<longrightarrow> send c (DialResponse err cid rand) io = Inr ([HTTPClose sock], io)) \<and>
      send c (DialRequest proto address rand) io = Inr ([], Some (ErrUnrecognizedType DIAL_REQ)) \<and>
      send c (CloseRequest cid) io = Inr ([], Some (ErrUnrecognizedType CLOSE_REQ))) \<and>
   (Mode c = ''http-connect'' \<longrightarrow> send c (DialResponse [] cid rand) io = Inr ([], None)) \<and>
   (Mode c \<noteq> ''grpc'' \<and> Mode c \<noteq> ''http-connect'' \<longrightarrow>
      send c pkt io = Inr ([], Some (ErrUnrecognizedMode (Mode c))))"
  by (simp add: send_def)

text \<open>The adapter on a tunnel record with socket 7, and on a record of mode udp.\<close>

theorem C6_send_adapter_witness:
  "send (zeroConnection\<lparr>Mode := ''http-connect'', HTTP := Some 7\<rparr>) (Data 101 [1, 2, 3]) None
     = Inr ([HTTPWrite 7 [1, 2, 3]], None) \<and>
   send (zeroConnection\<lparr>Mode := ''http-connect'', HTTP := Some 7\<rparr>) (CloseResponse 101) None
     = Inr ([HTTPClose 7], None) \<and>
   send (zeroConnection\<lparr>Mode := ''http-connect'', HTTP := Some 7\<rparr>)
     (DialResponse ''unreachable'' 101 9) None = Inr ([HTTPClose 7], None) \<and>
   send (zeroConnection\<lparr>Mode := ''http-connect'', HTTP := Some 7\<rparr>)
     (DialResponse [] 101 9) None = Inr ([], None) \<and>
   send (zeroConnection\<lparr>Mode := ''http-connect'', HTTP := Some 7\<rparr>)
     (CloseRequest 101) None = Inr ([], Some (ErrUnrecognizedType CLOSE_REQ)) \<and>
   send (zeroConnection\<lparr>Mode := ''udp''\<rparr>) (Data 101 [1, 2, 3]) None
     = Inr ([], Some (ErrUnrecognizedMode ''udp''))"
  using C6_send_adapter[of "zeroConnection\<lparr>Mode := ''http-connect'', HTTP := Some 7\<rparr>" 7
          101 "[1, 2, 3]" None "''unreachable''" 9 "''tcp''" "''10.0.0.1:443''" "Data 101 [1, 2, 3]"]
        C6_send_adapter[of "zeroConnection\<lparr>Mode := ''udp''\<rparr>" 7
          101 "[1, 2, 3]" None "''unreachable''" 9 "''tcp''" "''10.0.0.1:443''" "Data 101 [1, 2, 3]"]
  by (simp add: zeroConnection_def)

section \<open>Claims about the gRPC frontend handler\<close>

text \<open>
  Claim C7. When a DIAL_REQ arrives on a gRPC frontend stream and the manager returns
  an error, no-backend-available among them, the turn leaves the server as it was:
  no pending record, no packet to a backend, no DIAL_RSP to the frontend. The
  handler's backend variable is nil afterwards, and the loop goes on with the next
  packets of the stream.
\<close>

theorem C7_dial_req_dropped:
  assumes "Backend (BackendManager s) (storage s) None rnd = Inr (Inl e)"
  shows "serveRecvFrontend_pkt s stream rnd (firstConnID, be) (DialRequest proto address rand)
           = Inr (s, (firstConnID, None)) \<and>
         serveRecvFrontend_loop s stream (firstConnID, be)
             ((DialRequest proto address rand, rnd) # rest)
           = serveRecvFrontend_loop s stream (firstConnID, None) rest"
  using assms by (simp add: serveRecvFrontend_pkt_def)

text \<open>
  A new server has no agent: the manager returns no-backend-available, the DIAL_REQ
  changes nothing, and the DATA packet behind it is still taken.
\<close>

theorem C7_dial_req_dropped_witness:
  "Backend (BackendManager new_server) (storage new_server) None 0 = Inr (Inl ErrNotFound) \<and>
   serveRecvFrontend_pkt new_server 1 0 (0, None) (DialRequest ''tcp'' ''10.0.0.1:443'' 7)
     = Inr (new_server, (0, None)) \<and>
   serveRecvFrontend_loop new_server 1 (0, None)
       [(DialRequest ''tcp'' ''10.0.0.1:443'' 7, 0), (Data 101 [1], 0)]
     = Inr (new_server, (101, None))"
proof -
  have b: "Backend (BackendManager new_server) (storage new_server) None 0 = Inr (Inl ErrNotFound)"
    by (simp add: Backend_def new_server_def NewProxyServer_def NewDefaultBackendStorage_def
        GetRandomBackend_def found_or_ErrNotFound_def)
  show ?thesis
    using b C7_dial_req_dropped[OF b, of 1 0 None "''tcp''" "''10.0.0.1:443''" 7 "[(Data 101 [1], 0)]"]
    by (simp add: serveRecvFrontend_pkt_def)
qed

section \<open>Claims about the tunnel handler\<close>

lemma ServeHTTP_no_backend:
  assumes "status w = None" "\<not> hijacked w"
    and "Backend (BackendManager s) (storage s)
           (if proxyStrategy s = ''destIP'' then Some (StringValue (host_ip host)) else None) rnd
         = Inr (Inl e)"
  shows "ServeHTTP s w ''CONNECT'' host True (Inr sock) random rnd io
           = Inr (s, w\<lparr>status := Some StatusOK, hijacked := True\<rparr>, Returned)"
  using assms by (simp add: ServeHTTP_def WriteHeader_def Hijack_def http_Error_def Let_def)

text \<open>
  Claim C9. When backend selection fails on the CONNECT path, the handler is to reply
  500 and abort, with no pending record and no DIAL_REQ. On a new server, which has
  no agent, the handler returns with the server as it was: the pending table is
  empty and nothing has been sent, so no record and no DIAL_REQ. But the handler
  has fixed the status 200 and hijacked the connection before it selects a backend,
  so its \<open>http.Error\<close> with 500 reaches nobody: the client has got 200, and
  socket 7 is left open.
\<close>

theorem C9_client_gets_200_not_500:
  "ServeHTTP new_server new_writer ''CONNECT'' ''10.0.0.1:443'' True (Inr 7) 42 0 None
     = Inr (new_server, \<lparr>status = Some 200, hijacked = True\<rparr>, Returned) \<and>
   PendingDial new_server = Map.empty \<and> trace new_server = []"
  by (simp add: ServeHTTP_def WriteHeader_def Hijack_def http_Error_def Let_def StatusOK_def
      new_server_def new_writer_def NewProxyServer_def Backend_def NewDefaultBackendStorage_def
      GetRandomBackend_def found_or_ErrNotFound_def)

text \<open>
  Claim C10. On the CONNECT path, when the manager has selected a backend and
  \<open>backend.Send\<close> of the DIAL_REQ fails, the handler returns at once: the record it
  has just allocated is in the pending table under the nonce, the registry is as it
  was, and the only action of the handler is the send to the backend, so the
  hijacked socket is not closed.
\<close>

theorem C10_dial_send_failure_leaves_pending:
  assumes "Backend (BackendManager s) (storage s)
             (if proxyStrategy s = ''destIP'' then Some (StringValue (host_ip host)) else None) rnd
           = Inr (Inr b)"
  shows "\<exists>s' w'. ServeHTTP s w ''CONNECT'' host True (Inr sock) random rnd (Some e)
                   = Inr (s', w', Returned) \<and>
           PendingDial s' random = Some (nextRef s) \<and>
           heap s' (nextRef s)
             = zeroConnection\<lparr>Mode := ''http-connect'', HTTP := Some sock, backend := Some b\<rparr> \<and>
           frontends s' = frontends s \<and>
           trace s' = trace s @ [BackendSend b (DialRequest ''tcp'' host random)]"
  using assms
  by (simp add: ServeHTTP_def Let_def Hijack_def newConnection_def PendingDial_Add_def
      backend_Send_def)

text \<open>
  With agent A connected, a CONNECT whose DIAL_REQ cannot be sent leaves record 0
  pending under the nonce 42 and socket 7 untouched.
\<close>

theorem C10_dial_send_failure_leaves_pending_witness:
  "Backend (BackendManager one_agent_server) (storage one_agent_server) None 0
     = Inr (Inr \<lparr>addr = 0, conn = 1\<rparr>) \<and>
   (\<exists>s' w'. ServeHTTP one_agent_server new_writer ''CONNECT'' ''10.0.0.1:443'' True (Inr 7) 42 0
               (Some (TransportError ''EOF''))
             = Inr (s', w', Returned) \<and>
           PendingDial s' 42 = Some 0 \<and>
           HTTP (heap s' 0) = Some 7 \<and>
           frontends s' = Map.empty \<and>
           trace s' = [BackendSend \<lparr>addr = 0, conn = 1\<rparr> (DialRequest ''tcp'' ''10.0.0.1:443'' 42)])"
proof -
  have b: "Backend (BackendManager one_agent_server) (storage one_agent_server)
             (if proxyStrategy one_agent_server = ''destIP''
              then Some (StringValue (host_ip ''10.0.0.1:443'')) else None) 0
           = Inr (Inr \<lparr>addr = 0, conn = 1\<rparr>)"
    by (simp add: Backend_def one_agent_server_def new_server_def NewProxyServer_def
        NewDefaultBackendStorage_def GetRandomBackend_def found_or_ErrNotFound_def
        AddBackend_def newBackend_def Intn_def slice_at_def index0_def)
  have n: "nextRef one_agent_server = 0" "trace one_agent_server = []"
    "frontends one_agent_server = Map.empty" "proxyStrategy one_agent_server = ''default''"
    by (simp_all add: one_agent_server_def new_server_def NewProxyServer_def)
  show ?thesis
    using b n C10_dial_send_failure_leaves_pending[OF b, of new_writer 7 42 "TransportError ''EOF''"]
    by (auto simp: zeroConnection_def)
qed

section \<open>The end of a gRPC frontend stream\<close>

lemma one_agent_backend:
  "Backend DefaultBackendManager (storage one_agent_server) None rnd
     = Inr (Inr \<lparr>addr = 0, conn = 1\<rparr>)"
  by (simp add: Backend_def one_agent_server_def new_server_def NewProxyServer_def
      NewDefaultBackendStorage_def GetRandomBackend_def found_or_ErrNotFound_def
      AddBackend_def newBackend_def Intn_def slice_at_def index0_def)

lemma one_agent_fields:
  "BackendManager one_agent_server = DefaultBackendManager"
  "nextRef one_agent_server = 0" "trace one_agent_server = []"
  "frontends one_agent_server = Map.empty" "PendingDial one_agent_server = Map.empty"
  "proxyStrategy one_agent_server = ''default''"
  "heap one_agent_server = (\<lambda>_. zeroConnection)"
  by (simp_all add: one_agent_server_def new_server_def NewProxyServer_def)

lemma first_nonzero_connID_simps:
  "first_nonzero_connID [] = 0"
  "first_nonzero_connID (Data cid d # ps) = (if cid \<noteq> 0 then cid else first_nonzero_connID ps)"
  "first_nonzero_connID (DialRequest proto address rand # ps) = first_nonzero_connID ps"
  "first_nonzero_connID (DialResponse err cid rand # ps) = first_nonzero_connID ps"
  "first_nonzero_connID (CloseRequest cid # ps) = first_nonzero_connID ps"
  "first_nonzero_connID (CloseResponse cid # ps) = first_nonzero_connID ps"
  by (simp_all add: first_nonzero_connID_def)

lemma serveRecvFrontend_pkt_vars:
  assumes "serveRecvFrontend_pkt s stream rnd (fc, be) pkt = Inr (s1, vars)"
  shows "storage s1 = storage s \<and> BackendManager s1 = BackendManager s \<and>
         fst vars = (if fc \<noteq> 0 then fc else first_nonzero_connID [pkt]) \<and>
         snd vars = last_selection (BackendManager s) (storage s) be [(pkt, rnd)]"
  using assms
  by (cases pkt)
     (auto simp: serveRecvFrontend_pkt_def first_nonzero_connID_simps newConnection_def
        PendingDial_Add_def backend_Send_def Let_def
        split: sum.splits option.splits if_splits)

lemma first_nonzero_connID_Cons:
  "(if (if fc \<noteq> 0 then fc else first_nonzero_connID [pkt]) \<noteq> 0
    then (if fc \<noteq> 0 then fc else first_nonzero_connID [pkt])
    else first_nonzero_connID ps)
   = (if fc \<noteq> 0 then fc else first_nonzero_connID (pkt # ps))"
  by (cases pkt) (simp_all add: first_nonzero_connID_simps)

lemma last_selection_Cons:
  "last_selection k st (last_selection k st be [(pkt, rnd)]) rest
     = last_selection k st be ((pkt, rnd) # rest)"
  by (cases pkt) simp_all

lemma serveRecvFrontend_loop_vars:
  "serveRecvFrontend_loop s stream (fc, be) recvCh = Inr (s1, vars) \<Longrightarrow>
     storage s1 = storage s \<and> BackendManager s1 = BackendManager s \<and>
     fst vars = (if fc \<noteq> 0 then fc else first_nonzero_connID (map fst recvCh)) \<and>
     snd vars = last_selection (BackendManager s) (storage s) be recvCh"
proof (induction recvCh arbitrary: s fc be)
  case Nil
  then show ?case by (auto simp: first_nonzero_connID_simps)
next
  case (Cons x recvCh)
  obtain pkt rnd where x: "x = (pkt, rnd)" by (cases x)
  from Cons.prems x obtain s2 fc2 be2
    where p: "serveRecvFrontend_pkt s stream rnd (fc, be) pkt = Inr (s2, (fc2, be2))"
      and l: "serveRecvFrontend_loop s2 stream (fc2, be2) recvCh = Inr (s1, vars)"
    by (auto split: sum.splits)
  from serveRecvFrontend_pkt_vars[OF p]
  have a: "storage s2 = storage s" "BackendManager s2 = BackendManager s"
    "fc2 = (if fc \<noteq> 0 then fc else first_nonzero_connID [pkt])"
    "be2 = last_selection (BackendManager s) (storage s) be [(pkt, rnd)]"
    by simp_all
  from Cons.IH[OF l]
  have b: "storage s1 = storage s2" "BackendManager s1 = BackendManager s2"
    "fst vars = (if fc2 \<noteq> 0 then fc2 else first_nonzero_connID (map fst recvCh))"
    "snd vars = last_selection (BackendManager s2) (storage s2) be2 recvCh"
    by simp_all
  have "fst vars = (if fc \<noteq> 0 then fc else first_nonzero_connID (map fst (x # recvCh)))"
    unfolding b(3) a(3) x using first_nonzero_connID_Cons[of fc pkt "map fst recvCh"] by simp
  moreover have "snd vars = last_selection (BackendManager s) (storage s) be (x # recvCh)"
    unfolding b(4) a x by (rule last_selection_Cons)
  ultimately show ?case using a b by simp
qed

text \<open>
  Claim C8, as the source has it. When the packet channel of a gRPC frontend stream
  closes, the handler's variables are these: \<open>firstConnID\<close> is the first connID
  other than 0 among the DATA packets of the stream, 0 when there is none, and
  \<open>backend\<close> is the handle selected for the last DIAL_REQ, nil when that selection
  returned an error or the stream had no DIAL_REQ. If \<open>backend\<close> is not nil the
  handler sends it exactly one CLOSE_REQ, carrying \<open>firstConnID\<close>; if it is nil the
  handler sends nothing. Neither table changes.
\<close>

theorem C8_close_req_at_stream_end:
  assumes "serveRecvFrontend_loop s stream (0, None) recvCh = Inr (s1, vars)"
  shows "vars = (first_nonzero_connID (map fst recvCh),
                 last_selection (BackendManager s) (storage s) None recvCh) \<and>
         serveRecvFrontend s stream recvCh = Inr (serveRecvFrontend_end s1 vars) \<and>
         trace (serveRecvFrontend_end s1 vars)
           = trace s1 @ (case snd vars of
                           None \<Rightarrow> []
                         | Some b \<Rightarrow> [BackendSend b (CloseRequest (fst vars))]) \<and>
         PendingDial (serveRecvFrontend_end s1 vars) = PendingDial s1 \<and>
         frontends (serveRecvFrontend_end s1 vars) = frontends s1"
proof -
  from serveRecvFrontend_loop_vars[OF assms]
  have "vars = (first_nonzero_connID (map fst recvCh),
                 last_selection (BackendManager s) (storage s) None recvCh)"
    by (cases vars) simp
  moreover have "serveRecvFrontend s stream recvCh = Inr (serveRecvFrontend_end s1 vars)"
    using assms by (simp add: serveRecvFrontend_def)
  ultimately show ?thesis
    by (simp add: serveRecvFrontend_end_def backend_Send_def split: option.splits)
qed

text \<open>
  Claim C8 as stated fails: on a stream that delivers a DIAL_REQ, a DATA packet with
  connID 0 and a DATA packet with connID 5, the first connID observed in DATA
  packets is 0, and the CLOSE_REQ sent at the end of the stream carries 5.
\<close>

theorem C8_first_connID_zero_counterexample:
  "first_connID_observed
     (map fst [(DialRequest ''tcp'' ''10.0.0.1:443'' 7, 0), (Data 0 [1], 0), (Data 5 [2], 0)])
     = Some 0 \<and>
   map_sum id trace
     (serveRecvFrontend one_agent_server 1
        [(DialRequest ''tcp'' ''10.0.0.1:443'' 7, 0), (Data 0 [1], 0), (Data 5 [2], 0)])
     = Inr [BackendSend \<lparr>addr = 0, conn = 1\<rparr> (DialRequest ''tcp'' ''10.0.0.1:443'' 7),
            BackendSend \<lparr>addr = 0, conn = 1\<rparr> (Data 0 [1]),
            BackendSend \<lparr>addr = 0, conn = 1\<rparr> (Data 5 [2]),
            BackendSend \<lparr>addr = 0, conn = 1\<rparr> (CloseRequest 5)]"
  by (simp add: first_connID_observed_def serveRecvFrontend_def serveRecvFrontend_pkt_def
      serveRecvFrontend_end_def one_agent_backend one_agent_fields newConnection_def
      PendingDial_Add_def backend_Send_def)

text \<open>The same stream under the amended claim.\<close>

theorem C8_close_req_at_stream_end_witness:
  "\<exists>s1. serveRecvFrontend_loop one_agent_server 1 (0, None)
           [(DialRequest ''tcp'' ''10.0.0.1:443'' 7, 0), (Data 0 [1], 0), (Data 5 [2], 0)]
         = Inr (s1, (5, Some \<lparr>addr = 0, conn = 1\<rparr>)) \<and>
        trace (serveRecvFrontend_end s1 (5, Some \<lparr>addr = 0, conn = 1\<rparr>))
         = trace s1 @ [BackendSend \<lparr>addr = 0, conn = 1\<rparr> (CloseRequest 5)]"
proof -
  obtain s1 vars where l: "serveRecvFrontend_loop one_agent_server 1 (0, None)
           [(DialRequest ''tcp'' ''10.0.0.1:443'' 7, 0), (Data 0 [1], 0), (Data 5 [2], 0)]
         = Inr (s1, vars)"
    by (simp add: serveRecvFrontend_pkt_def one_agent_backend one_agent_fields newConnection_def
      PendingDial_Add_def backend_Send_def)
  from C8_close_req_at_stream_end[OF l]
  have v: "vars = (5, Some \<lparr>addr = 0, conn = 1\<rparr>)"
    by (simp add: one_agent_backend one_agent_fields first_nonzero_connID_simps)
  from C8_close_req_at_stream_end[OF l]
  have "trace (serveRecvFrontend_end s1 vars)
           = trace s1 @ (case snd vars of
                           None \<Rightarrow> []
                         | Some b \<Rightarrow> [BackendSend b (CloseRequest (fst vars))])"
    by blast
  with l show ?thesis unfolding v by simp
qed

section \<open>The two tables: what every handler turn preserves\<close>

lemma server_inv_trace [simp]: "server_inv (s\<lparr>trace := t\<rparr>) = server_inv s"
  by (simp add: server_inv_def pending_inv_def frontends_inv_def entry_ok_def)

lemma server_inv_storage [simp]: "server_inv (s\<lparr>storage := st\<rparr>) = server_inv s"
  by (simp add: server_inv_def pending_inv_def frontends_inv_def entry_ok_def)

lemma backend_Send_inv [simp]: "server_inv (backend_Send s b pkt) = server_inv s"
  by (simp add: backend_Send_def)

lemma send_no_panic:
  "wf_mode c \<Longrightarrow> \<exists>acts e. send c pkt io = Inr (acts, e)"
  by (cases pkt) (auto simp: send_def wf_mode_def)


lemma frontend_send_result:
  "frontend_send s r pkt io = Inr (s1, e) \<Longrightarrow>
     \<exists>acts. send (heap s r) pkt io = Inr (acts, e) \<and>
            s1 = s\<lparr>trace := trace s @ FrontendSend r pkt # acts\<rparr>"
  by (auto simp: frontend_send_def split: sum.splits)


lemma removeFrontend_fields [simp]:
  "heap (removeFrontend s a cid) = heap s"
  "PendingDial (removeFrontend s a cid) = PendingDial s"
  "nextRef (removeFrontend s a cid) = nextRef s"
  "trace (removeFrontend s a cid) = trace s"
  "storage (removeFrontend s a cid) = storage s"
  "BackendManager (removeFrontend s a cid) = BackendManager s"
  by (simp_all add: removeFrontend_def split: option.splits)


lemma removeFrontend_conns_of:
  "conns_of (removeFrontend s a cid) a' =
     (if a' = a then AList.delete cid (conns_of s a) else conns_of s a')"
proof (cases "frontends s a")
  case None
  then show ?thesis by (simp add: removeFrontend_def conns_of_def)
next
  case (Some conns)
  show ?thesis
  proof (cases "map_of conns cid")
    case None
    then have "cid \<notin> fst ` set conns" by (simp add: map_of_eq_None_iff)
    then have "AList.delete cid conns = conns" by simp
    with None Some show ?thesis by (simp add: removeFrontend_def conns_of_def)
  next
    case (Some r)
    with \<open>frontends s a = Some conns\<close> show ?thesis
      by (simp add: removeFrontend_def conns_of_def)
  qed
qed



lemma entry_ok_removeFrontend [simp]:
  "entry_ok (removeFrontend s a cid) a' cid' r = entry_ok s a' cid' r"
  by (simp add: entry_ok_def)





lemma serveRecvBackend_pkt_DialResponse:
  assumes "PendingDial s rand = Some r"
    and "send (heap s r) (DialResponse err cid rand) io = Inr (acts, e)"
    and "\<not> connected (heap s r)"
  shows "serveRecvBackend_pkt s a (DialResponse err cid rand) io =
           Inr (if err \<noteq> [] \<or> e \<noteq> None
                then s\<lparr>trace := trace s @ FrontendSend r (DialResponse err cid rand) # acts,
                       PendingDial := (PendingDial s)(rand := None)\<rparr>
                else s\<lparr>trace := trace s @ FrontendSend r (DialResponse err cid rand) # acts,
                       PendingDial := (PendingDial s)(rand := None),
                       frontends := (frontends s)(a \<mapsto> AList.update cid r (conns_of s a)),
                       heap := (heap s)
                         (r := (heap s r)\<lparr>connectID := cid, agentID := a, connected := True\<rparr>)\<rparr>)"
  using assms
  by (simp add: serveRecvBackend_pkt_def PendingDial_Get_def frontend_send_def
      PendingDial_Remove_def addFrontend_def close_connected_def conns_of_def Let_def)















section \<open>The deferred cleanup of the backend handler\<close>







section \<open>Claims about the pending-dial table and the frontend registry\<close>

lemma in_registry_alt: "in_registry s r \<longleftrightarrow> (\<exists>a cid. map_of (conns_of s a) cid = Some r)"
  unfolding in_registry_def conns_of_def
proof
  assume "\<exists>a conns cid. frontends s a = Some conns \<and> map_of conns cid = Some r"
  then obtain a conns cid where "frontends s a = Some conns" "map_of conns cid = Some r" by blast
  then have "map_of (case frontends s a of None \<Rightarrow> [] | Some m \<Rightarrow> m) cid = Some r" by simp
  then show "\<exists>a cid. map_of (case frontends s a of None \<Rightarrow> [] | Some m \<Rightarrow> m) cid = Some r"
    by blast
next
  assume "\<exists>a cid. map_of (case frontends s a of None \<Rightarrow> [] | Some m \<Rightarrow> m) cid = Some r"
  then obtain a cid where m: "map_of (case frontends s a of None \<Rightarrow> [] | Some m \<Rightarrow> m) cid = Some r"
    by blast
  then obtain conns where "frontends s a = Some conns" by (cases "frontends s a") auto
  with m show "\<exists>a conns cid. frontends s a = Some conns \<and> map_of conns cid = Some r" by auto
qed

lemma in_registry_frame:
  "frontends s' = frontends s \<Longrightarrow> in_registry s' r = in_registry s r"
  by (simp add: in_registry_def)

lemma in_registry_removeFrontend:
  "in_registry (removeFrontend s a cid) r \<Longrightarrow> in_registry s r"
  unfolding in_registry_alt
  by (auto simp: removeFrontend_conns_of delete_conv' split: if_splits)

lemma in_registry_frontend_send:
  assumes "frontend_send s r0 pkt io = Inr (s1, e)"
  shows "in_registry s1 r = in_registry s r"
proof -
  from frontend_send_result[OF assms] have "frontends s1 = frontends s" by auto
  then show ?thesis by (rule in_registry_frame)
qed

lemma in_registry_closeFrontends:
  "closeFrontends s a fs io = Inr s' \<Longrightarrow> in_registry s' r \<Longrightarrow> in_registry s r"
proof (induction fs arbitrary: s)
  case Nil
  then show ?case by simp
next
  case (Cons r0 fs)
  from Cons.prems(1) obtain s2 e
    where f: "frontend_send (removeFrontend s a (connectID (heap s r0))) r0
                (CloseResponse (connectID (heap s r0))) (io r0) = Inr (s2, e)"
      and c: "closeFrontends s2 a fs io = Inr s'"
    by (auto simp: Let_def split: sum.splits)
  from Cons.IH[OF c Cons.prems(2)] have "in_registry s2 r" .
  with f have "in_registry (removeFrontend s a (connectID (heap s r0))) r"
    by (simp add: in_registry_frontend_send)
  then show ?case by (rule in_registry_removeFrontend)
qed

lemma serveRecvFrontend_pkt_frontends:
  "serveRecvFrontend_pkt s stream rnd vars pkt = Inr (s', vars') \<Longrightarrow> frontends s' = frontends s"
  by (cases vars; cases pkt)
     (auto simp: serveRecvFrontend_pkt_def newConnection_def PendingDial_Add_def backend_Send_def
        Let_def split: sum.splits option.splits)

lemma ServeHTTP_frontends:
  "ServeHTTP s w meth host isHijacker hj random rnd io = Inr (s', w', out) \<Longrightarrow>
     frontends s' = frontends s"
  by (auto simp: ServeHTTP_def Let_def Hijack_def newConnection_def PendingDial_Add_def
        backend_Send_def split: if_splits sum.splits option.splits prod.splits)

lemma serveRecvBackend_pkt_registry:
  assumes i: "server_inv s" and st: "serveRecvBackend_pkt s a pkt io = Inr s'"
    and n: "in_registry s' r" "\<not> in_registry s r"
  shows "in_pending s r"
proof (cases pkt)
  case (DialRequest proto address rand)
  with st n show ?thesis by (simp add: serveRecvBackend_pkt_def)
next
  case (CloseRequest cid)
  with st n show ?thesis by (simp add: serveRecvBackend_pkt_def)
next
  case (Data cid d)
  with st n show ?thesis
    by (auto simp: serveRecvBackend_pkt_def in_registry_frontend_send split: sum.splits)
next
  case (CloseResponse cid)
  with st n show ?thesis
    by (auto simp: serveRecvBackend_pkt_def in_registry_frontend_send
        dest!: in_registry_removeFrontend split: sum.splits)
next
  case (DialResponse err cid rand)
  show ?thesis
  proof (cases "PendingDial s rand")
    case None
    with st n DialResponse show ?thesis
      by (simp add: serveRecvBackend_pkt_def PendingDial_Get_def)
  next
    case (Some r0)
    with i have r0: "\<not> connected (heap s r0)" "wf_mode (heap s r0)"
      unfolding server_inv_def pending_inv_def by blast+
    from send_no_panic[OF r0(2), of pkt io] obtain acts e
      where s: "send (heap s r0) (DialResponse err cid rand) io = Inr (acts, e)"
      unfolding DialResponse by blast
    from serveRecvBackend_pkt_DialResponse[OF Some s r0(1), of a] st DialResponse
    have f: "frontends s' = frontends s \<or>
             frontends s' = (frontends s)(a \<mapsto> AList.update cid r0 (conns_of s a))"
      by (auto split: if_splits)
    have "r = r0"
    proof (rule ccontr)
      assume ne: "r \<noteq> r0"
      from n(1) obtain a' cid' where m: "map_of (conns_of s' a') cid' = Some r"
        unfolding in_registry_alt by blast
      from f m ne have "map_of (conns_of s a') cid' = Some r"
        by (auto simp: conns_of_def update_conv' split: if_splits)
      with n(2) show False unfolding in_registry_alt by blast
    qed
    with Some show ?thesis by (auto simp: in_pending_def)
  qed
qed

lemma step_registry:
  assumes i: "server_inv s" and st: "step s ev = Inr s'"
    and n: "in_registry s' r" "\<not> in_registry s r"
  shows "in_pending s r"
proof (cases ev)
  case (Connect a c)
  with st n show ?thesis by (auto simp: in_registry_def)
next
  case (ConnectReturn a c)
  with st n show ?thesis by (auto simp: in_registry_def split: sum.splits)
next
  case (BackendPacket a pkt io)
  with i st n show ?thesis by (auto intro: serveRecvBackend_pkt_registry)
next
  case (BackendStreamEnd a be ks io)
  with st n show ?thesis
    by (auto simp: serveRecvBackend_deferred_def dest: in_registry_closeFrontends split: sum.splits)
next
  case (FrontendPacket stream rnd vars pkt)
  with st n show ?thesis
    by (auto split: sum.splits dest!: serveRecvFrontend_pkt_frontends simp: in_registry_def)
next
  case (FrontendStreamEnd vars)
  with st n show ?thesis
    by (cases vars) (auto simp: serveRecvFrontend_end_def backend_Send_def in_registry_def
        split: option.splits)
next
  case (TunnelRequest w meth host isHijacker hj random rnd io)
  with st n show ?thesis
    by (auto split: sum.splits dest!: ServeHTTP_frontends simp: in_registry_def)
qed

lemma run_append:
  "run s (es @ es') = (case run s es of Inl p \<Rightarrow> Inl p | Inr s1 \<Rightarrow> run s1 es')"
  by (induction es arbitrary: s) (auto split: sum.splits)

lemmas eval_defs =
  new_server_def NewProxyServer_def NewDefaultBackendStorage_def
  AddBackend_def newBackend_def RemoveBackend_def removeAgentID_def
  Backend_def GetRandomBackend_def GetBackend_def found_or_ErrNotFound_def Intn_def
  slice_at_def index0_def
  serveRecvFrontend_pkt_def serveRecvFrontend_end_def newConnection_def PendingDial_Add_def
  PendingDial_Get_def PendingDial_Remove_def backend_Send_def
  serveRecvBackend_pkt_def frontend_send_def send_def close_connected_def
  addFrontend_def removeFrontend_def getFrontend_def conns_of_def zeroConnection_def
  serveRecvBackend_deferred_def getFrontendsForBackendConn_def same_backend_def
  range_order_def Let_def upt_rec



subsection \<open>The tables between the operations of a DIAL_RSP turn\<close>

lemma dial_rsp_uninterrupted:
  "dial_rsp_steps 7 s (Some (DialTurn a err cid rand io AtGet))
     = (case serveRecvBackend_pkt s a (DialResponse err cid rand) io of
          Inl p \<Rightarrow> Inl p
        | Inr s1 \<Rightarrow> Inr (s1, None))"
proof (cases "PendingDial_Get s rand")
  case None
  then show ?thesis
    by (simp add: eval_nat_numeral serveRecvBackend_pkt_def)
next
  case (Some r)
  show ?thesis
  proof (cases "frontend_send s r (DialResponse err cid rand) io")
    case (Inl p)
    with Some show ?thesis by (simp add: eval_nat_numeral serveRecvBackend_pkt_def)
  next
    case (Inr x)
    obtain s1 e where x: "x = (s1, e)" by (cases x)
    have h: "(heap (PendingDial_Remove s1 rand))
               (r := heap (PendingDial_Remove s1 rand) r\<lparr>connectID := cid\<rparr>,
                r := ((heap (PendingDial_Remove s1 rand))
                        (r := heap (PendingDial_Remove s1 rand) r\<lparr>connectID := cid\<rparr>)) r
                      \<lparr>agentID := a\<rparr>)
             = (heap (PendingDial_Remove s1 rand))
                 (r := heap (PendingDial_Remove s1 rand) r\<lparr>connectID := cid, agentID := a\<rparr>)"
      by (simp add: fun_eq_iff)
    show ?thesis
      using Some Inr x
      by (cases "close_connected
                   (addFrontend
                     (PendingDial_Remove s1 rand
                        \<lparr>heap := (heap (PendingDial_Remove s1 rand))
                           (r := heap (PendingDial_Remove s1 rand) r\<lparr>connectID := cid, agentID := a\<rparr>)\<rparr>)
                     a cid r) r")
         (simp_all add: eval_nat_numeral serveRecvBackend_pkt_def Let_def h)
  qed
qed

lemma turn_ok_cong:
  "PendingDial s' = PendingDial s \<Longrightarrow> nextRef s' = nextRef s \<Longrightarrow> turn_ok s' t = turn_ok s t"
proof (cases t)
  case (DialTurn a err cid rand io pc)
  assume "PendingDial s' = PendingDial s" "nextRef s' = nextRef s"
  with DialTurn show ?thesis by (cases pc) (simp_all add: in_pending_def)
qed

lemma micro_inv_shrink:
  assumes i: "micro_inv (s, th)"
    and p: "PendingDial s' = PendingDial s" and n: "nextRef s' = nextRef s"
    and r: "\<And>r. in_registry s' r \<Longrightarrow> in_registry s r"
  shows "micro_inv (s', th)"
  using i r unfolding micro_inv_def
  by (simp add: p n in_pending_def turn_ok_cong[OF p n])

lemma turn_ok_add:
  assumes "turn_ok s t" and p: "PendingDial s' = (PendingDial s)(n \<mapsto> nextRef s)"
    and x: "nextRef s' = Suc (nextRef s)"
  shows "turn_ok s' t"
proof (cases t)
  case (DialTurn a err cid rand io pc)
  with assms(1) show ?thesis
    by (cases pc) (auto simp: in_pending_def p x split: if_splits)
qed

lemma micro_inv_add:
  assumes i: "micro_inv (s, th)"
    and p: "PendingDial s' = (PendingDial s)(n \<mapsto> nextRef s)"
    and x: "nextRef s' = Suc (nextRef s)"
    and r: "\<And>r. in_registry s' r \<Longrightarrow> in_registry s r"
  shows "micro_inv (s', th)"
proof -
  from i have m1: "\<And>m r. PendingDial s m = Some r \<Longrightarrow> r < nextRef s"
    and m2: "\<And>m m' r. PendingDial s m = Some r \<Longrightarrow> PendingDial s m' = Some r \<Longrightarrow> m = m'"
    and m3: "\<And>r. in_registry s r \<Longrightarrow> r < nextRef s \<and> \<not> in_pending s r"
    and m4: "\<And>h t. th h = Some t \<Longrightarrow> turn_ok s t"
    unfolding micro_inv_def by auto
  have a: "\<forall>m r. PendingDial s' m = Some r \<longrightarrow> r < nextRef s'"
    using m1 by (auto simp: p x split: if_splits intro: less_SucI)
  have b: "\<forall>m m' r. PendingDial s' m = Some r \<and> PendingDial s' m' = Some r \<longrightarrow> m = m'"
  proof (intro allI impI)
    fix m m' r assume "PendingDial s' m = Some r \<and> PendingDial s' m' = Some r"
    then show "m = m'"
      using m1[of m r] m1[of m' r] m2[of m r m'] by (auto simp: p split: if_splits)
  qed
  have c: "\<forall>r. in_registry s' r \<longrightarrow> r < nextRef s' \<and> \<not> in_pending s' r"
  proof (intro allI impI)
    fix r assume "in_registry s' r"
    then have "in_registry s r" by (rule r)
    from m3[OF this] show "r < nextRef s' \<and> \<not> in_pending s' r"
      by (auto simp: in_pending_def p x split: if_splits)
  qed
  have d: "\<forall>h t. th h = Some t \<longrightarrow> turn_ok s' t"
    using m4 turn_ok_add[OF _ p x] by blast
  from a b c d show ?thesis unfolding micro_inv_def by simp
qed

lemma frontend_send_tables:
  assumes "frontend_send s r0 pkt io = Inr (s1, e)"
  shows "PendingDial s1 = PendingDial s" "nextRef s1 = nextRef s" "frontends s1 = frontends s"
    "heap s1 = heap s"
  using frontend_send_result[OF assms] by auto

lemma closeFrontends_tables:
  "closeFrontends s a fs io = Inr s' \<Longrightarrow> PendingDial s' = PendingDial s \<and> nextRef s' = nextRef s"
proof (induction fs arbitrary: s)
  case Nil
  then show ?case by simp
next
  case (Cons r0 fs)
  from Cons.prems obtain s2 e
    where f: "frontend_send (removeFrontend s a (connectID (heap s r0))) r0
                (CloseResponse (connectID (heap s r0))) (io r0) = Inr (s2, e)"
      and c: "closeFrontends s2 a fs io = Inr s'"
    by (auto simp: Let_def split: sum.splits)
  from Cons.IH[OF c] frontend_send_tables[OF f] show ?case by simp
qed

lemma serveRecvFrontend_pkt_pending:
  assumes "serveRecvFrontend_pkt s stream rnd vars pkt = Inr (s', vars')"
  shows "PendingDial s' = PendingDial s \<and> nextRef s' = nextRef s \<or>
         (\<exists>n. PendingDial s' = (PendingDial s)(n \<mapsto> nextRef s) \<and> nextRef s' = Suc (nextRef s))"
  using assms
  by (cases vars; cases pkt)
     (auto simp: serveRecvFrontend_pkt_def newConnection_def PendingDial_Add_def backend_Send_def
        Let_def split: sum.splits option.splits)

lemma ServeHTTP_pending:
  assumes "ServeHTTP s w meth host isHijacker hj random rnd io = Inr (s', w', out)"
  shows "PendingDial s' = PendingDial s \<and> nextRef s' = nextRef s \<or>
         (\<exists>n. PendingDial s' = (PendingDial s)(n \<mapsto> nextRef s) \<and> nextRef s' = Suc (nextRef s))"
  using assms
  by (auto simp: ServeHTTP_def Let_def Hijack_def newConnection_def PendingDial_Add_def
        backend_Send_def split: if_splits sum.splits option.splits prod.splits)

lemma serveRecvBackend_pkt_tables:
  assumes "serveRecvBackend_pkt s a pkt io = Inr s'" and "\<not> is_dial_rsp (BackendPacket a pkt io)"
  shows "PendingDial s' = PendingDial s \<and> nextRef s' = nextRef s \<and>
         (\<forall>r. in_registry s' r \<longrightarrow> in_registry s r)"
proof (cases pkt)
  case (DialRequest proto address rand)
  with assms show ?thesis by (simp add: serveRecvBackend_pkt_def)
next
  case (DialResponse err cid rand)
  with assms show ?thesis by simp
next
  case (CloseRequest cid)
  with assms show ?thesis by (simp add: serveRecvBackend_pkt_def)
next
  case (CloseResponse cid)
  with assms show ?thesis
    by (auto simp: serveRecvBackend_pkt_def frontend_send_tables in_registry_frontend_send
        dest!: in_registry_removeFrontend split: sum.splits)
next
  case (Data cid d)
  with assms show ?thesis
    by (auto simp: serveRecvBackend_pkt_def frontend_send_tables in_registry_frontend_send
        split: sum.splits)
qed

lemma step_tables:
  assumes st: "step s ev = Inr s'" and nd: "\<not> is_dial_rsp ev"
  shows "(PendingDial s' = PendingDial s \<and> nextRef s' = nextRef s \<or>
          (\<exists>n. PendingDial s' = (PendingDial s)(n \<mapsto> nextRef s) \<and> nextRef s' = Suc (nextRef s))) \<and>
         (\<forall>r. in_registry s' r \<longrightarrow> in_registry s r)"
proof (cases ev)
  case (Connect a c)
  with st have "frontends s' = frontends s" "PendingDial s' = PendingDial s" "nextRef s' = nextRef s"
    by auto
  then show ?thesis using in_registry_frame[of s' s] by simp
next
  case (ConnectReturn a c)
  with st have "frontends s' = frontends s" "PendingDial s' = PendingDial s" "nextRef s' = nextRef s"
    by (auto split: sum.splits)
  then show ?thesis using in_registry_frame[of s' s] by simp
next
  case (BackendPacket a pkt io)
  with st nd serveRecvBackend_pkt_tables[of s a pkt io s'] show ?thesis by simp
next
  case (BackendStreamEnd a be ks io)
  with st show ?thesis
    by (auto simp: serveRecvBackend_deferred_def dest: in_registry_closeFrontends
        closeFrontends_tables split: sum.splits)
next
  case (FrontendPacket stream rnd vars pkt)
  with st obtain vars' where p: "serveRecvFrontend_pkt s stream rnd vars pkt = Inr (s', vars')"
    by (auto split: sum.splits)
  from serveRecvFrontend_pkt_frontends[OF p] have "in_registry s' r = in_registry s r" for r
    by (rule in_registry_frame)
  with serveRecvFrontend_pkt_pending[OF p] show ?thesis by simp
next
  case (FrontendStreamEnd vars)
  with st have "frontends s' = frontends s" "PendingDial s' = PendingDial s" "nextRef s' = nextRef s"
    by (cases vars; auto simp: serveRecvFrontend_end_def backend_Send_def split: option.splits)+
  then show ?thesis using in_registry_frame[of s' s] by simp
next
  case (TunnelRequest w meth host isHijacker hj random rnd io)
  with st obtain w' out
    where p: "ServeHTTP s w meth host isHijacker hj random rnd io = Inr (s', w', out)"
    by (auto split: sum.splits)
  from ServeHTTP_frontends[OF p] have "in_registry s' r = in_registry s r" for r
    by (rule in_registry_frame)
  with ServeHTTP_pending[OF p] show ?thesis by simp
qed

lemma Turn_inv:
  assumes i: "micro_inv (s, th)" and st: "micro_step (s, th) (Turn ev) = Inr cs'"
  shows "micro_inv cs'"
proof (cases "is_dial_rsp ev")
  case True
  with st i show ?thesis by simp
next
  case False
  with st obtain s' where s': "step s ev = Inr s'" "cs' = (s', th)"
    by (auto split: sum.splits)
  from step_tables[OF s'(1) False] have r: "\<And>r. in_registry s' r \<Longrightarrow> in_registry s r"
    and p: "PendingDial s' = PendingDial s \<and> nextRef s' = nextRef s \<or>
          (\<exists>n. PendingDial s' = (PendingDial s)(n \<mapsto> nextRef s) \<and> nextRef s' = Suc (nextRef s))"
    by blast+
  from p show ?thesis
  proof
    assume "PendingDial s' = PendingDial s \<and> nextRef s' = nextRef s"
    with micro_inv_shrink[OF i _ _ r] s'(2) show ?thesis by simp
  next
    assume "\<exists>n. PendingDial s' = (PendingDial s)(n \<mapsto> nextRef s) \<and> nextRef s' = Suc (nextRef s)"
    then obtain n where "PendingDial s' = (PendingDial s)(n \<mapsto> nextRef s)"
      "nextRef s' = Suc (nextRef s)" by blast
    with micro_inv_add[OF i _ _ r] s'(2) show ?thesis by simp
  qed
qed

lemma NewPending_inv:
  assumes i: "micro_inv (s, th)"
  shows "micro_inv (PendingDial_Add (snd (newConnection s c)) rand (fst (newConnection s c)), th)"
  by (rule micro_inv_add[OF i, of _ rand])
     (simp_all add: PendingDial_Add_def newConnection_def in_registry_def)

lemma RemoveFrontendCall_inv:
  assumes i: "micro_inv (s, th)"
  shows "micro_inv (removeFrontend s a cid, th)"
  by (rule micro_inv_shrink[OF i]) (simp_all add: in_registry_removeFrontend)

lemma in_registry_addFrontend:
  "in_registry (addFrontend s a cid r0) r \<Longrightarrow> r = r0 \<or> in_registry s r"
  unfolding in_registry_alt
  by (auto simp: addFrontend_def conns_of_def update_conv' split: if_splits)

lemma dial_rsp_step_inv:
  assumes i: "micro_inv (s, th)" and t: "th h = Some t"
    and st: "dial_rsp_step s t = Inr (s1, t1)"
  shows "micro_inv (s1, th(h := t1))"
proof -
  from i have m1: "\<And>m r. PendingDial s m = Some r \<Longrightarrow> r < nextRef s"
    and m2: "\<And>m m' r. PendingDial s m = Some r \<Longrightarrow> PendingDial s m' = Some r \<Longrightarrow> m = m'"
    and m3: "\<And>r. in_registry s r \<Longrightarrow> r < nextRef s \<and> \<not> in_pending s r"
    and m4: "\<And>h t. th h = Some t \<Longrightarrow> turn_ok s t"
    unfolding micro_inv_def by auto
  obtain a err cid rand io pc where dt: "t = DialTurn a err cid rand io pc" by (cases t)
  from m4[OF t] dt have ok: "turn_ok s (DialTurn a err cid rand io pc)" by simp
  have same: "micro_inv (s', th(h := t'))"
    if "PendingDial s' = PendingDial s" "nextRef s' = nextRef s"
      "\<And>r. in_registry s' r \<Longrightarrow> in_registry s r"
      "case t' of None \<Rightarrow> True | Some u \<Rightarrow> turn_ok s u" for s' t'
  proof -
    from micro_inv_shrink[OF i that(1,2,3)] have "micro_inv (s', th)" by simp
    moreover have "turn_ok s' u" if "t' = Some u" for u
      using \<open>case t' of None \<Rightarrow> True | Some u \<Rightarrow> turn_ok s u\<close> that
        turn_ok_cong[OF \<open>PendingDial s' = PendingDial s\<close> \<open>nextRef s' = nextRef s\<close>] by simp
    ultimately show ?thesis unfolding micro_inv_def by auto
  qed
  show ?thesis
  proof (cases pc)
    case AtGet
    show ?thesis
    proof (cases "PendingDial s rand")
      case None
      with st dt AtGet have "s1 = s" "t1 = None" by (simp_all add: PendingDial_Get_def)
      then show ?thesis using same[of s None] by simp
    next
      case (Some r)
      with st dt AtGet have e: "s1 = s" "t1 = Some (DialTurn a err cid rand io (AtSend r))"
        by (simp_all add: PendingDial_Get_def)
      have "turn_ok s (DialTurn a err cid rand io (AtSend r))"
        using m1[OF Some] m2[OF _ Some] by auto
      then show ?thesis using same[of s t1] e by simp
    qed
  next
    case (AtSend r)
    with st dt obtain e where f: "frontend_send s r (DialResponse err cid rand) io = Inr (s1, e)"
      and t1: "t1 = Some (DialTurn a err cid rand io (AtRemove r (err \<noteq> [] \<or> e \<noteq> None)))"
      by (auto split: sum.splits)
    from frontend_send_tables[OF f] in_registry_frontend_send[OF f] ok AtSend t1
    show ?thesis by (intro same) simp_all
  next
    case (AtRemove r dialErr)
    with st dt have s1: "s1 = PendingDial_Remove s rand"
      and t1: "t1 = (if dialErr then None else Some (DialTurn a err cid rand io (AtSetConnectID r)))"
      by (auto split: if_splits)
    have p: "PendingDial s1 = (PendingDial s)(rand := None)" "nextRef s1 = nextRef s"
      "frontends s1 = frontends s"
      by (simp_all add: s1 PendingDial_Remove_def)
    have ip: "in_pending s1 r' \<Longrightarrow> in_pending s r'" for r'
      by (auto simp: in_pending_def p split: if_splits)
    have a: "\<forall>m r. PendingDial s1 m = Some r \<longrightarrow> r < nextRef s1"
      using m1 by (auto simp: p split: if_splits)
    have b: "\<forall>m m' r. PendingDial s1 m = Some r \<and> PendingDial s1 m' = Some r \<longrightarrow> m = m'"
      using m2 by (auto simp: p split: if_splits)
    have c: "\<forall>r. in_registry s1 r \<longrightarrow> r < nextRef s1 \<and> \<not> in_pending s1 r"
      using m3 ip by (auto simp: in_registry_def p)
    have keep: "turn_ok s1 u" if "turn_ok s u" for u
    proof (cases u)
      case (DialTurn a' err' cid' rand' io' pc')
      with that ip show ?thesis
        by (cases pc') (auto simp: p split: if_splits)
    qed
    have out: "\<not> in_pending s1 r" "r < nextRef s1"
      using ok AtRemove by (auto simp: in_pending_def p)
    have d: "\<forall>h' u. (th(h := t1)) h' = Some u \<longrightarrow> turn_ok s1 u"
      using m4 keep out by (auto simp: t1 split: if_splits)
    from a b c d show ?thesis unfolding micro_inv_def by simp
  next
    case (AtSetConnectID r)
    with st dt have e: "t1 = Some (DialTurn a err cid rand io (AtSetAgentID r))"
      "PendingDial s1 = PendingDial s" "nextRef s1 = nextRef s" "frontends s1 = frontends s"
      by auto
    from e(4) have "in_registry s1 r' = in_registry s r'" for r' by (rule in_registry_frame)
    with e ok AtSetConnectID show ?thesis by (intro same) simp_all
  next
    case (AtSetAgentID r)
    with st dt have e: "t1 = Some (DialTurn a err cid rand io (AtAddFrontend r))"
      "PendingDial s1 = PendingDial s" "nextRef s1 = nextRef s" "frontends s1 = frontends s"
      by auto
    from e(4) have "in_registry s1 r' = in_registry s r'" for r' by (rule in_registry_frame)
    with e ok AtSetAgentID show ?thesis by (intro same) simp_all
  next
    case (AtAddFrontend r)
    with st dt have s1: "s1 = addFrontend s a cid r"
      and t1: "t1 = Some (DialTurn a err cid rand io (AtClose r))" by auto
    have p: "PendingDial s1 = PendingDial s" "nextRef s1 = nextRef s"
      by (simp_all add: s1 addFrontend_def)
    from ok AtAddFrontend have r: "r < nextRef s" "\<not> in_pending s r" by simp_all
    have c: "\<forall>r'. in_registry s1 r' \<longrightarrow> r' < nextRef s1 \<and> \<not> in_pending s1 r'"
    proof (intro allI impI)
      fix r' assume "in_registry s1 r'"
      then have "r' = r \<or> in_registry s r'" unfolding s1 by (rule in_registry_addFrontend)
      with r m3[of r'] show "r' < nextRef s1 \<and> \<not> in_pending s1 r'"
        by (auto simp: p in_pending_def)
    qed
    have d: "\<forall>h' u. (th(h := t1)) h' = Some u \<longrightarrow> turn_ok s1 u"
      using m4 turn_ok_cong[OF p] by (auto simp: t1)
    from m1 m2 c d show ?thesis unfolding micro_inv_def by (auto simp: p)
  next
    case (AtClose r)
    with st dt have "t1 = None" "PendingDial s1 = PendingDial s" "nextRef s1 = nextRef s"
      "frontends s1 = frontends s"
      by (auto simp: close_connected_def split: if_splits)
    then show ?thesis using same[of s1 None] in_registry_frame[of s1 s] by simp
  qed
qed

lemma micro_step_inv:
  assumes i: "micro_inv cs" and st: "micro_step cs m = Inr cs'"
  shows "micro_inv cs'"
proof -
  obtain s th where cs: "cs = (s, th)" by (cases cs)
  show ?thesis
  proof (cases m)
    case (Turn ev)
    with i st cs show ?thesis using Turn_inv by blast
  next
    case (NewPending rand c)
    with i st cs show ?thesis using NewPending_inv by auto
  next
    case (RemoveFrontendCall a cid)
    with i st cs show ?thesis using RemoveFrontendCall_inv by auto
  next
    case (DialRspArrives h a err cid rand io)
    show ?thesis
    proof (cases "th h")
      case None
      with st cs DialRspArrives have "cs' = (s, th(h \<mapsto> DialTurn a err cid rand io AtGet))" by simp
      with i cs show ?thesis unfolding micro_inv_def by auto
    next
      case (Some t)
      with st cs DialRspArrives i show ?thesis by simp
    qed
  next
    case (DialRspStep h)
    show ?thesis
    proof (cases "th h")
      case None
      with st cs DialRspStep i show ?thesis by simp
    next
      case (Some t)
      with st cs DialRspStep obtain s1 t1 where "dial_rsp_step s t = Inr (s1, t1)"
        "cs' = (s1, th(h := t1))" by (auto split: sum.splits)
      with dial_rsp_step_inv[OF i[unfolded cs] Some] show ?thesis by simp
    qed
  qed
qed

lemma micro_run_inv: "micro_inv cs \<Longrightarrow> micro_run cs ms = Inr cs' \<Longrightarrow> micro_inv cs'"
proof (induction ms arbitrary: cs)
  case Nil
  then show ?case by simp
next
  case (Cons m ms)
  from Cons.prems(2) obtain cs1 where "micro_step cs m = Inr cs1" "micro_run cs1 ms = Inr cs'"
    by (auto split: sum.splits)
  with Cons.IH micro_step_inv[OF Cons.prems(1)] show ?case by blast
qed

lemma micro_inv_init: "micro_inv (NewProxyServer bm strategy, Map.empty)"
  by (simp add: micro_inv_def NewProxyServer_def in_registry_def)

lemma micro_run_append:
  "micro_run cs (ms @ ms') =
     (case micro_run cs ms of Inl p \<Rightarrow> Inl p | Inr cs1 \<Rightarrow> micro_run cs1 ms')"
  by (induction ms arbitrary: cs) (auto split: sum.splits)

lemma micro_run_thread:
  "micro_run (s, th(h := tt)) (replicate k (DialRspStep h)) =
     (case dial_rsp_steps k s tt of
        Inl p \<Rightarrow> Inl p
      | Inr (s1, t1) \<Rightarrow> Inr (s1, th(h := t1)))"
proof (induction k arbitrary: s tt)
  case 0
  then show ?case by (cases tt) (simp_all add: fun_eq_iff)
next
  case (Suc k)
  show ?case
  proof (cases tt)
    case None
    have "micro_run (s, th(h := None)) (replicate k (DialRspStep h)) = Inr (s, th(h := None))"
      by (simp only: Suc.IH dial_rsp_steps.simps(1) sum.case prod.case)
    moreover have "(th(h := None)) h = None" by simp
    ultimately show ?thesis unfolding None by (simp del: fun_upd_apply)
  next
    case (Some t)
    show ?thesis
    proof (cases "dial_rsp_step s t")
      case (Inl p)
      with Some show ?thesis by simp
    next
      case (Inr x)
      obtain s1 t1 where x: "x = (s1, t1)" by (cases x)
      have "(th(h \<mapsto> t))(h := t1) = th(h := t1)" "(th(h \<mapsto> t)) h = Some t" by simp_all
      with Some Inr x Suc.IH[of s1 t1] show ?thesis by (simp del: fun_upd_apply)
    qed
  qed
qed

lemma step_as_micro_run:
  assumes "step s ev = Inr s'"
  shows "\<exists>ms. micro_run (s, Map.empty) ms = Inr (s', Map.empty)"
proof (cases "is_dial_rsp ev")
  case False
  with assms have "micro_run (s, Map.empty) [Turn ev] = Inr (s', Map.empty)" by simp
  then show ?thesis ..
next
  case True
  then obtain a err cid rand io where ev: "ev = BackendPacket a (DialResponse err cid rand) io"
    by (cases ev rule: is_dial_rsp.cases) simp_all
  let ?t = "DialTurn a err cid rand io AtGet"
  have "micro_run (s, Map.empty) (DialRspArrives 0 a err cid rand io # replicate 7 (DialRspStep 0))
          = micro_run (s, Map.empty(0 := Some ?t)) (replicate 7 (DialRspStep 0))"
    by simp
  also have "\<dots> = (case dial_rsp_steps 7 s (Some ?t) of
                      Inl p \<Rightarrow> Inl p
                    | Inr (s1, t1) \<Rightarrow> Inr (s1, Map.empty(0 := t1)))"
    by (rule micro_run_thread)
  also have "\<dots> = Inr (s', Map.empty)"
    using assms ev by (simp add: dial_rsp_uninterrupted)
  finally show ?thesis ..
qed

lemma run_as_micro_run:
  "run s es = Inr s' \<Longrightarrow> \<exists>ms. micro_run (s, Map.empty) ms = Inr (s', Map.empty)"
proof (induction es arbitrary: s)
  case Nil
  then have "micro_run (s, Map.empty) [] = Inr (s', Map.empty)" by simp
  then show ?case ..
next
  case (Cons ev es)
  from Cons.prems obtain s1 where s1: "step s ev = Inr s1" "run s1 es = Inr s'"
    by (auto split: sum.splits)
  from step_as_micro_run[OF s1(1)] obtain ms1
    where "micro_run (s, Map.empty) ms1 = Inr (s1, Map.empty)" ..
  moreover from Cons.IH[OF s1(2)] obtain ms2
    where "micro_run (s1, Map.empty) ms2 = Inr (s', Map.empty)" ..
  ultimately have "micro_run (s, Map.empty) (ms1 @ ms2) = Inr (s', Map.empty)"
    by (simp add: micro_run_append)
  then show ?case ..
qed

lemma micro_step_grows_registry:
  assumes i: "micro_inv (s, th)" and st: "micro_step (s, th) m = Inr (s', th')"
    and g: "in_registry s' r" "\<not> in_registry s r"
  shows "\<exists>h a err cid rand io. m = DialRspStep h \<and>
           th h = Some (DialTurn a err cid rand io (AtAddFrontend r))"
proof (cases m)
  case (Turn ev)
  show ?thesis
  proof (cases "is_dial_rsp ev")
    case True
    with st Turn g show ?thesis by simp
  next
    case False
    with st Turn obtain "step s ev = Inr s'" by (auto split: sum.splits)
    from step_tables[OF this False] g show ?thesis by blast
  qed
next
  case (NewPending rand c)
  with st have "frontends s' = frontends s"
    by (auto simp: PendingDial_Add_def newConnection_def)
  with g in_registry_frame[of s' s r] show ?thesis by simp
next
  case (RemoveFrontendCall a cid)
  with st g in_registry_removeFrontend[of s a cid r] show ?thesis by auto
next
  case (DialRspArrives h a err cid rand io)
  with st g show ?thesis by (auto split: option.splits)
next
  case (DialRspStep h)
  show ?thesis
  proof (cases "th h")
    case None
    with st DialRspStep g show ?thesis by simp
  next
    case (Some t)
    with st DialRspStep obtain t1 where d: "dial_rsp_step s t = Inr (s', t1)"
      by (auto split: sum.splits)
    obtain a err cid rand io pc where t: "t = DialTurn a err cid rand io pc" by (cases t)
    have same: "frontends s' = frontends s \<Longrightarrow> False"
      using g in_registry_frame[of s' s r] by simp
    show ?thesis
    proof (cases pc)
      case AtGet
      with d t same show ?thesis by (auto simp: PendingDial_Get_def split: option.splits)
    next
      case (AtSend r0)
      with d t same show ?thesis by (auto split: sum.splits dest: frontend_send_tables(3))
    next
      case (AtRemove r0 dialErr)
      with d t same show ?thesis by (auto simp: PendingDial_Remove_def split: if_splits)
    next
      case (AtSetConnectID r0)
      with d t same show ?thesis by auto
    next
      case (AtSetAgentID r0)
      with d t same show ?thesis by auto
    next
      case (AtAddFrontend r0)
      with d t have "s' = addFrontend s a cid r0" by auto
      with g in_registry_addFrontend[of s a cid r0 r] have "r0 = r" by auto
      with Some t AtAddFrontend DialRspStep show ?thesis by auto
    next
      case (AtClose r0)
      with d t same show ?thesis by (auto simp: close_connected_def split: if_splits)
    qed
  qed
qed

text \<open>
  Claim C3. In every state the server can reach from a new server, with the handlers
  taking over from each other after every single operation on a table, so also in
  the middle of a DIAL_RSP turn, no record is both in the pending table under some
  nonce and in the frontend registry under some (agentID, connID). And the only
  operation that puts into the registry a record that was not there is the
  \<open>addFrontend\<close> of a DIAL_RSP turn, which comes after the \<open>PendingDial.Remove\<close>
  of that turn: the record is not in the pending table when the operation starts,
  nor when it is done.
\<close>

theorem C3_pending_registry_disjoint:
  assumes "micro_run (NewProxyServer bm strategy, Map.empty) ms = Inr (s, th)"
  shows "\<not> (in_pending s r \<and> in_registry s r) \<and>
         (\<forall>m s' th'. micro_step (s, th) m = Inr (s', th') \<and> in_registry s' r \<and> \<not> in_registry s r
            \<longrightarrow> \<not> in_pending s r \<and> \<not> in_pending s' r \<and>
                (\<exists>h a err cid rand io. m = DialRspStep h \<and>
                   th h = Some (DialTurn a err cid rand io (AtAddFrontend r))))"
proof -
  from micro_run_inv[OF micro_inv_init assms] have i: "micro_inv (s, th)" .
  have disj: "\<not> (in_pending t r \<and> in_registry t r)" if "micro_inv (t, u)" for t u
    using that unfolding micro_inv_def by auto
  have "\<not> in_pending s r \<and> \<not> in_pending s' r \<and>
                (\<exists>h a err cid rand io. m = DialRspStep h \<and>
                   th h = Some (DialTurn a err cid rand io (AtAddFrontend r)))"
    if st: "micro_step (s, th) m = Inr (s', th')" and g: "in_registry s' r" "\<not> in_registry s r"
    for m s' th'
  proof -
    from micro_step_grows_registry[OF i st g] obtain h a err cid rand io
      where m: "m = DialRspStep h" "th h = Some (DialTurn a err cid rand io (AtAddFrontend r))"
      by blast
    from i have "\<forall>h t. th h = Some t \<longrightarrow> turn_ok s t"
      unfolding micro_inv_def by simp
    with m(2) have "turn_ok s (DialTurn a err cid rand io (AtAddFrontend r))" by blast
    then have "\<not> in_pending s r" by simp
    moreover from disj[OF micro_step_inv[OF i st]] g(1) have "\<not> in_pending s' r" by simp
    ultimately show ?thesis using m by blast
  qed
  with disj[OF i] show ?thesis by blast
qed

text \<open>
  Two DIAL_REQs, then the DIAL_RSP of the first, stopped before its \<open>addFrontend\<close>:
  record 0 is in neither table; the next operation puts it into the registry, and
  record 1 stays in the pending table only.
\<close>

theorem C3_pending_registry_disjoint_witness:
  "\<exists>s th s' th'.
     micro_run (new_server, Map.empty)
       [Turn (Connect ''A'' 1),
        Turn (FrontendPacket 1 0 (0, None) (DialRequest ''tcp'' ''10.0.0.1:443'' 7)),
        Turn (FrontendPacket 2 0 (0, None) (DialRequest ''tcp'' ''10.0.0.2:443'' 8)),
        DialRspArrives 0 ''A'' [] 101 7 None,
        DialRspStep 0, DialRspStep 0, DialRspStep 0, DialRspStep 0, DialRspStep 0] = Inr (s, th) \<and>
     th 0 = Some (DialTurn ''A'' [] 101 7 None (AtAddFrontend 0)) \<and>
     micro_step (s, th) (DialRspStep 0) = Inr (s', th') \<and>
     \<not> in_registry s 0 \<and> in_registry s' 0 \<and> \<not> in_pending s 0 \<and> \<not> in_pending s' 0 \<and>
     in_pending s' 1 \<and> \<not> in_registry s' 1"
proof -
  let ?ms = "[Turn (Connect ''A'' 1),
        Turn (FrontendPacket 1 0 (0, None) (DialRequest ''tcp'' ''10.0.0.1:443'' 7)),
        Turn (FrontendPacket 2 0 (0, None) (DialRequest ''tcp'' ''10.0.0.2:443'' 8)),
        DialRspArrives 0 ''A'' [] 101 7 None,
        DialRspStep 0, DialRspStep 0, DialRspStep 0, DialRspStep 0, DialRspStep 0]"
  have "\<exists>s th s' th'.
     micro_run (new_server, Map.empty) ?ms = Inr (s, th) \<and>
     th 0 = Some (DialTurn ''A'' [] 101 7 None (AtAddFrontend 0)) \<and>
     micro_step (s, th) (DialRspStep 0) = Inr (s', th') \<and>
     frontends s = Map.empty \<and> frontends s' ''A'' = Some [(101, 0)] \<and>
     PendingDial s' 8 = Some 1"
    by (simp add: eval_defs)
  then obtain s th s' th' where r: "micro_run (new_server, Map.empty) ?ms = Inr (s, th)"
    and t: "th 0 = Some (DialTurn ''A'' [] 101 7 None (AtAddFrontend 0))"
    and st: "micro_step (s, th) (DialRspStep 0) = Inr (s', th')"
    and f: "frontends s = Map.empty" "frontends s' ''A'' = Some [(101, 0)]"
      "PendingDial s' 8 = Some 1"
    by (elim exE conjE) (rule that, assumption+)
  have r0: "\<not> in_registry s 0" using f(1) by (simp add: in_registry_def)
  have r1: "in_registry s' 0" unfolding in_registry_def
    by (intro exI[of _ "''A''"] exI[of _ "[(101, 0)]"] exI[of _ 101]) (simp add: f(2))
  have p1: "in_pending s' 1" unfolding in_pending_def using f(3) by blast
  have "micro_run (new_server, Map.empty) (?ms @ [DialRspStep 0])
        = (case Inr (s, th) of Inl p \<Rightarrow> Inl p | Inr cs1 \<Rightarrow> micro_run cs1 [DialRspStep 0])"
    unfolding r[symmetric] by (rule micro_run_append)
  also have "\<dots> = Inr (s', th')" using st by simp
  finally have r': "micro_run (new_server, Map.empty) (?ms @ [DialRspStep 0]) = Inr (s', th')" .
  from C3_pending_registry_disjoint[OF r[unfolded new_server_def], of 0] st r0 r1
  have a: "\<not> in_pending s 0" "\<not> in_pending s' 0" by blast+
  from C3_pending_registry_disjoint[OF r'[unfolded new_server_def], of 1] p1 have b: "\<not> in_registry s' 1" by blast
  show ?thesis
    by (rule exI[of _ s], rule exI[of _ th], rule exI[of _ s'], rule exI[of _ th'])
       (intro conjI r t st a r0 r1 p1 b)
qed



end
